theory Spec2Isabelle
  imports Main "HOL-Library.Word" "HOL-Library.Signed_Division" "HOL-Library.Multiset"
begin

section \<open>Integers of the program\<close>

text \<open>
  The package computes on Go's \<open>int\<close>. The source assigns \<open>math.MaxInt64\<close> to an
  \<open>int\<close> variable, so it only compiles where \<open>int\<close> has 64 bits: \<open>int\<close> is a
  64-bit two's complement word. \<open>+\<close>, \<open>-\<close> and \<open>*\<close> wrap around, the comparisons
  are the signed ones (\<open><s\<close>, \<open>\<le>s\<close>), and \<open>/\<close> truncates towards zero.
  The source's \<open>a >= b\<close> is written \<open>b \<le>s a\<close> and \<open>a > b\<close> is written \<open>b <s a\<close>.
\<close>

type_synonym gint = "64 word"

definition MaxInt64 :: gint where
  "MaxInt64 = 9223372036854775807"

text \<open>
  Go's \<open>/\<close> on \<open>int\<close>. The source only divides by the constant 2, so neither the
  panic on a zero divisor nor the wrap-around of \<open>MinInt64 / -1\<close> can occur.
\<close>

definition goDiv :: "gint \<Rightarrow> gint \<Rightarrow> gint" where
  "goDiv a b = word_of_int (sint a sdiv sint b)"

section \<open>Data model\<close>

record Rectangle =
  Width :: gint
  Height :: gint

definition Area :: "Rectangle \<Rightarrow> gint" where
  "Area r = Width r * Height r"

text \<open>
  \<open>position\<close> is the index of the rectangle in the caller's collection; indices are
  natural numbers here.
\<close>

record placement =
  position :: nat
  x :: gint
  y :: gint
  width :: gint
  height :: gint

record bounds =
  minX :: gint
  minY :: gint
  maxX :: gint
  maxY :: gint

text \<open>
  The caller's collection (interface \<open>Packable\<close>) is a list of rectangles, as in the
  repository's own two implementations: \<open>Len\<close> is its length, \<open>Rectangle(n)\<close> reads
  index \<open>n\<close> (a read out of range panics: \<open>None\<close>), and every call \<open>Place(n, x, y)\<close>
  is recorded, in call order, in the list that \<open>Pack\<close> returns beside its two results.
\<close>

type_synonym Packable = "Rectangle list"

definition Len :: "Packable \<Rightarrow> nat" where
  "Len p = length p"

definition RectangleAt :: "Packable \<Rightarrow> nat \<Rightarrow> Rectangle option" where
  "RectangleAt p n = (if n < length p then Some (p ! n) else None)"

section \<open>Geometric helpers\<close>

definition expandBoundsForPlacement :: "placement \<Rightarrow> bounds \<Rightarrow> bounds" where
  "expandBoundsForPlacement r b =
     (let b = (if x r <s minX b then b\<lparr>minX := x r\<rparr> else b);
          b = (if y r <s minY b then b\<lparr>minY := y r\<rparr> else b);
          b = (if maxX b <s x r + width r then b\<lparr>maxX := x r + width r\<rparr> else b);
          b = (if maxY b <s y r + height r then b\<lparr>maxY := y r + height r\<rparr> else b)
      in b)"

text \<open>
  \<open>computeBounds\<close> reads \<open>placements[0]\<close>, which panics on an empty slice
  (\<open>None\<close>), and then runs its own copy of the four comparisons over every placement.
\<close>

definition computeBounds :: "placement list \<Rightarrow> bounds option" where
  "computeBounds placements =
     (case placements of
        [] \<Rightarrow> None
      | p0 # _ \<Rightarrow>
          Some (foldl
            (\<lambda>b r.
               let b = (if x r <s minX b then b\<lparr>minX := x r\<rparr> else b);
                   b = (if y r <s minY b then b\<lparr>minY := y r\<rparr> else b);
                   b = (if maxX b <s x r + width r then b\<lparr>maxX := x r + width r\<rparr> else b);
                   b = (if maxY b <s y r + height r then b\<lparr>maxY := y r + height r\<rparr> else b)
               in b)
            \<lparr>minX = x p0, minY = y p0, maxX = x p0 + width p0, maxY = y p0 + height p0\<rparr>
            placements))"

text \<open>
  \<open>getCandidatePositions\<close> collects the edges in two Go maps used as sets and then
  ranges over each map. Go leaves the iteration order of a map unspecified: every key
  is visited once, in an order that may differ from run to run. The model keeps the keys
  in the order of insertion and takes the iteration order as a parameter, one for each
  map: a function from the inserted keys to the sequence in which \<open>range\<close> yields them.
  \<open>rangeOrder_ok\<close> says what Go guarantees of it.
\<close>

type_synonym rangeOrder = "gint list \<Rightarrow> gint list"

definition rangeOrder_ok :: "rangeOrder \<Rightarrow> bool" where
  "rangeOrder_ok ord = (\<forall>ks. distinct (ord ks) \<and> set (ord ks) = set ks)"

definition xKeys :: "placement list \<Rightarrow> gint list" where
  "xKeys rects = concat (map (\<lambda>r. [x r, x r + width r]) rects)"

definition yKeys :: "placement list \<Rightarrow> gint list" where
  "yKeys rects = concat (map (\<lambda>r. [y r, y r + height r]) rects)"

definition getCandidatePositions ::
  "rangeOrder \<Rightarrow> rangeOrder \<Rightarrow> placement list \<Rightarrow> gint list \<times> gint list" where
  "getCandidatePositions xOrder yOrder rects = (xOrder (xKeys rects), yOrder (yKeys rects))"

definition doRectanglesIntersect :: "placement \<Rightarrow> placement \<Rightarrow> bool" where
  "doRectanglesIntersect a b =
     (if x b + width b \<le>s x a \<or> x a + width a \<le>s x b then False
      else if y b + height b \<le>s y a \<or> y a + height a \<le>s y b then False
      else True)"

fun hasIntersection :: "placement \<Rightarrow> placement list \<Rightarrow> bool" where
  "hasIntersection candidate [] = False"
| "hasIntersection candidate (p # placements) =
     (if doRectanglesIntersect candidate p then True
      else hasIntersection candidate placements)"

section \<open>Choosing a position\<close>

text \<open>The candidate rectangle built in the loop body; its \<open>position\<close> field is left zero.\<close>

definition candidateAt :: "Rectangle \<Rightarrow> gint \<Rightarrow> gint \<Rightarrow> placement" where
  "candidateAt r candidateX candidateY =
     \<lparr>position = 0, x = candidateX, y = candidateY, width = Width r, height = Height r\<rparr>"

text \<open>
  The score that the loop body computes inline for a candidate: the area of the expanded
  bounding box and the squared distance between the two centres.
\<close>

definition candidateScore :: "bounds \<Rightarrow> placement \<Rightarrow> gint \<times> gint" where
  "candidateScore b candidate =
     (let candidateBB = expandBoundsForPlacement candidate b;
          candidateArea = (maxX candidateBB - minX candidateBB) * (maxY candidateBB - minY candidateBB);
          bbCenterX = minX candidateBB + goDiv (maxX candidateBB - minX candidateBB) 2;
          bbCenterY = minY candidateBB + goDiv (maxY candidateBB - minY candidateBB) 2;
          candidateCenterX = x candidate + goDiv (width candidate) 2;
          candidateCenterY = y candidate + goDiv (height candidate) 2;
          dx = candidateCenterX - bbCenterX;
          dy = candidateCenterY - bbCenterY;
          centerDistance = dx * dx + dy * dy
      in (candidateArea, centerDistance))"

text \<open>The state of the heuristic: the five local variables of \<open>findBestPlacement\<close>.\<close>

record best =
  bestX :: gint
  bestY :: gint
  bestArea :: gint
  bestCenterDistance :: gint
  found :: bool

definition initialBest :: best where
  "initialBest =
     \<lparr>bestX = 0, bestY = 0, bestArea = MaxInt64, bestCenterDistance = MaxInt64, found = False\<rparr>"

text \<open>One turn of the inner loop.\<close>

definition considerCandidate ::
  "bounds \<Rightarrow> Rectangle \<Rightarrow> placement list \<Rightarrow> best \<Rightarrow> gint \<Rightarrow> gint \<Rightarrow> best" where
  "considerCandidate b r placements st candidateX candidateY =
     (let candidate = candidateAt r candidateX candidateY in
      if hasIntersection candidate placements then st
      else
        let (candidateArea, centerDistance) = candidateScore b candidate in
        if candidateArea <s bestArea st
           \<or> (candidateArea = bestArea st \<and> centerDistance <s bestCenterDistance st)
        then \<lparr>bestX = x candidate, bestY = y candidate, bestArea = candidateArea,
              bestCenterDistance = centerDistance, found = True\<rparr>
        else st)"

definition findBestPlacement ::
  "gint list \<Rightarrow> gint list \<Rightarrow> bounds \<Rightarrow> Rectangle \<Rightarrow> placement list \<Rightarrow> gint \<times> gint \<times> bool" where
  "findBestPlacement xCandidates yCandidates b r placements =
     (let st = foldl
                 (\<lambda>st candidateX.
                    foldl (\<lambda>st candidateY. considerCandidate b r placements st candidateX candidateY)
                      st yCandidates)
                 initialBest xCandidates
      in (bestX st, bestY st, found st))"

section \<open>Pack\<close>

text \<open>
  The part of the loop body after the candidates and the bounds are known: choose the
  position, fall back to the right edge of the bounds when none was found, and append.
\<close>

definition placeRectangle ::
  "gint list \<Rightarrow> gint list \<Rightarrow> bounds \<Rightarrow> placement list \<Rightarrow> nat \<Rightarrow> Rectangle \<Rightarrow> placement list" where
  "placeRectangle xCandidates yCandidates b placements pos rectangle =
     (let (bestX, bestY, candidateFound) =
            findBestPlacement xCandidates yCandidates b rectangle placements;
          (bestX, bestY) = (if \<not> candidateFound then (maxX b, minY b) else (bestX, bestY))
      in placements @
           [\<lparr>position = pos, x = bestX, y = bestY,
             width = Width rectangle, height = Height rectangle\<rparr>])"

fun packLoop ::
  "rangeOrder \<Rightarrow> rangeOrder \<Rightarrow> Packable \<Rightarrow> placement list \<Rightarrow> nat list \<Rightarrow> placement list option" where
  "packLoop xOrder yOrder p placements [] = Some placements"
| "packLoop xOrder yOrder p placements (pos # positions) =
     (case RectangleAt p pos of
        None \<Rightarrow> None
      | Some rectangle \<Rightarrow>
          if length placements = 0
          then packLoop xOrder yOrder p
                 (placements @
                    [\<lparr>position = pos, x = 0, y = 0,
                      width = Width rectangle, height = Height rectangle\<rparr>])
                 positions
          else
            (let (xCandidates, yCandidates) = getCandidatePositions xOrder yOrder placements in
             case computeBounds placements of
               None \<Rightarrow> None
             | Some b \<Rightarrow>
                 packLoop xOrder yOrder p
                   (placeRectangle xCandidates yCandidates b placements pos rectangle)
                   positions))"

text \<open>
  \<open>sort.Slice\<close> belongs to Go's library and is not stable. It is a parameter of the
  model: a function from the comparison and the slice to the sorted slice.
  \<open>sortSlice_ok\<close> is its contract: the result is a permutation of the slice, and when
  the comparison is a strict weak order no element is less than one before it.
\<close>

type_synonym sortSlice = "(nat \<Rightarrow> nat \<Rightarrow> bool) \<Rightarrow> nat list \<Rightarrow> nat list"

definition strictWeakOrder :: "(nat \<Rightarrow> nat \<Rightarrow> bool) \<Rightarrow> bool" where
  "strictWeakOrder lt =
     ((\<forall>a. \<not> lt a a) \<and> (\<forall>a b c. lt a b \<and> lt b c \<longrightarrow> lt a c)
      \<and> (\<forall>a b c. \<not> lt a b \<and> \<not> lt b c \<longrightarrow> \<not> lt a c))"

definition sortSlice_ok :: "sortSlice \<Rightarrow> bool" where
  "sortSlice_ok srt =
     (\<forall>lt xs. mset (srt lt xs) = mset xs
        \<and> (strictWeakOrder lt \<longrightarrow> sorted_wrt (\<lambda>a b. \<not> lt b a) (srt lt xs)))"

text \<open>The comparison that \<open>Pack\<close> passes to \<open>sort.Slice\<close>, on the elements it compares.\<close>

definition areaGreater :: "Packable \<Rightarrow> nat \<Rightarrow> nat \<Rightarrow> bool" where
  "areaGreater p a b = (Area (p ! b) <s Area (p ! a))"

definition sortedPositions :: "sortSlice \<Rightarrow> Packable \<Rightarrow> nat list" where
  "sortedPositions srt p = srt (areaGreater p) [0..<Len p]"

text \<open>The layout before it is shifted: the placements after the loop.\<close>

definition layout ::
  "sortSlice \<Rightarrow> rangeOrder \<Rightarrow> rangeOrder \<Rightarrow> Packable \<Rightarrow> placement list option" where
  "layout srt xOrder yOrder p = packLoop xOrder yOrder p [] (sortedPositions srt p)"

text \<open>
  \<open>Pack\<close> returns the two dimensions and the recorded calls of \<open>Place\<close>;
  \<open>None\<close> is a run-time panic.
\<close>

definition Pack ::
  "sortSlice \<Rightarrow> rangeOrder \<Rightarrow> rangeOrder \<Rightarrow> Packable
     \<Rightarrow> ((gint \<times> gint) \<times> (nat \<times> gint \<times> gint) list) option" where
  "Pack srt xOrder yOrder p =
     (let count = Len p in
      if count = 0 then Some ((0, 0), [])
      else
        case layout srt xOrder yOrder p of
          None \<Rightarrow> None
        | Some placements \<Rightarrow>
            (case computeBounds placements of
               None \<Rightarrow> None
             | Some b \<Rightarrow>
                 Some ((maxX b - minX b, maxY b - minY b),
                       map (\<lambda>pl. (position pl, x pl - minX b, y pl - minY b)) placements)))"

section \<open>Notions used to state the properties\<close>

text \<open>
  The candidate pairs in the order in which the two loops of \<open>findBestPlacement\<close> meet
  them (the x-coordinates outside, the y-coordinates inside), without those that the
  intersection test skips.
\<close>

definition survivingCandidates ::
  "gint list \<Rightarrow> gint list \<Rightarrow> Rectangle \<Rightarrow> placement list \<Rightarrow> (gint \<times> gint) list" where
  "survivingCandidates xCandidates yCandidates r placements =
     filter (\<lambda>c. \<not> hasIntersection (candidateAt r (fst c) (snd c)) placements)
       (List.product xCandidates yCandidates)"

definition scoreAt :: "bounds \<Rightarrow> Rectangle \<Rightarrow> gint \<times> gint \<Rightarrow> gint \<times> gint" where
  "scoreAt b r c = candidateScore b (candidateAt r (fst c) (snd c))"

text \<open>
  The comparison of two scores in \<open>findBestPlacement\<close>: a smaller area, or the same
  area and a smaller distance.
\<close>

definition better :: "gint \<times> gint \<Rightarrow> gint \<times> gint \<Rightarrow> bool" where
  "better s t = (fst s <s fst t \<or> (fst s = fst t \<and> snd s <s snd t))"

text \<open>
  The half-open intervals \<open>[x, x + width)\<close> and \<open>[y, y + height)\<close> of a rectangle, as
  sets of integers, and the overlap of two rectangles in the words of the specification:
  both pairs of intervals share a point.
\<close>

definition xInterval :: "placement \<Rightarrow> int set" where
  "xInterval a = {sint (x a) ..< sint (x a) + sint (width a)}"

definition yInterval :: "placement \<Rightarrow> int set" where
  "yInterval a = {sint (y a) ..< sint (y a) + sint (height a)}"

definition intervalsOverlap :: "placement \<Rightarrow> placement \<Rightarrow> bool" where
  "intervalsOverlap a b =
     (xInterval a \<inter> xInterval b \<noteq> {} \<and> yInterval a \<inter> yInterval b \<noteq> {})"

text \<open>
  The rectangle that a recorded call \<open>Place(n, x, y)\<close> positions: rectangle \<open>n\<close> of the
  collection at \<open>(x, y)\<close>.
\<close>

definition recorded :: "Packable \<Rightarrow> nat \<times> gint \<times> gint \<Rightarrow> placement" where
  "recorded p c =
     \<lparr>position = fst c, x = fst (snd c), y = snd (snd c),
      width = Width (p ! fst c), height = Height (p ! fst c)\<rparr>"

text \<open>
  The inputs on which no coordinate overflows: every width and height is at least zero,
  and the widths, and the heights, add up to less than \<open>2 ^ 63\<close>.
\<close>

definition fits :: "Packable \<Rightarrow> bool" where
  "fits p =
     ((\<forall>r \<in> set p. 0 \<le>s Width r \<and> 0 \<le>s Height r)
      \<and> sum_list (map (\<lambda>r. sint (Width r)) p) < 2 ^ 63
      \<and> sum_list (map (\<lambda>r. sint (Height r)) p) < 2 ^ 63)"

text \<open>
  The edges of a rectangle as integers, and the comparison of the edges that the
  intersection test of the source makes, on integers: each rectangle starts before the
  other one ends, on both axes. \<open>edgesFit\<close> holds when the right and the bottom edge
  fit in 64 bits, so that \<open>x + width\<close> and \<open>y + height\<close> do not wrap around.
\<close>

definition edgesFit :: "placement \<Rightarrow> bool" where
  "edgesFit a =
     (- (2 ^ 63) \<le> sint (x a) + sint (width a) \<and> sint (x a) + sint (width a) < 2 ^ 63
      \<and> - (2 ^ 63) \<le> sint (y a) + sint (height a) \<and> sint (y a) + sint (height a) < 2 ^ 63)"

definition edgesOverlap :: "placement \<Rightarrow> placement \<Rightarrow> bool" where
  "edgesOverlap a b =
     (sint (x a) < sint (x b) + sint (width b) \<and> sint (x b) < sint (x a) + sint (width a)
      \<and> sint (y a) < sint (y b) + sint (height b) \<and> sint (y b) < sint (y a) + sint (height a))"

text \<open>
  The area of a rectangle as an integer, the product of its width and its height without
  wrap-around, and the collections in which every such product fits in 64 bits.
\<close>

definition trueArea :: "Rectangle \<Rightarrow> int" where
  "trueArea r = sint (Width r) * sint (Height r)"

definition areaFits :: "Packable \<Rightarrow> bool" where
  "areaFits p = (\<forall>r \<in> set p. - (2 ^ 63) \<le> trueArea r \<and> trueArea r < 2 ^ 63)"
















text \<open>
  A candidate is a best one when no candidate of the sequence beats its score in the
  comparison of \<open>findBestPlacement\<close>. A run has no tie for the best score when, at every
  turn after the first, the candidates that pass the intersection test have one best
  candidate only; the other candidates may tie among themselves.
\<close>

definition isBest :: "bounds \<Rightarrow> Rectangle \<Rightarrow> (gint \<times> gint) list \<Rightarrow> gint \<times> gint \<Rightarrow> bool" where
  "isBest b r cs c = (\<forall>d \<in> set cs. \<not> better (scoreAt b r d) (scoreAt b r c))"

definition uniqueBest :: "bounds \<Rightarrow> Rectangle \<Rightarrow> (gint \<times> gint) list \<Rightarrow> bool" where
  "uniqueBest b r cs = (\<forall>c \<in> set cs. \<forall>c' \<in> set cs. isBest b r cs c \<and> isBest b r cs c' \<longrightarrow> c = c')"

fun noTieForBest :: "rangeOrder \<Rightarrow> rangeOrder \<Rightarrow> Packable \<Rightarrow> placement list \<Rightarrow> nat list \<Rightarrow> bool" where
  "noTieForBest xOrder yOrder p placements [] = True"
| "noTieForBest xOrder yOrder p placements (pos # positions) =
     (case packLoop xOrder yOrder p placements [pos] of
        None \<Rightarrow> False
      | Some placements' \<Rightarrow>
          (placements = []
           \<or> (case computeBounds placements of
                 None \<Rightarrow> False
               | Some b \<Rightarrow>
                   uniqueBest b (p ! pos)
                     (survivingCandidates (xOrder (xKeys placements)) (yOrder (yKeys placements))
                        (p ! pos) placements)))
          \<and> noTieForBest xOrder yOrder p placements' positions)"

section \<open>Notions used in the proofs\<close>

text \<open>
  What one turn of the inner loop does with a candidate that passed the intersection test.
\<close>

definition accept :: "bounds \<Rightarrow> Rectangle \<Rightarrow> best \<Rightarrow> gint \<times> gint \<Rightarrow> best" where
  "accept b r st c =
     (if better (scoreAt b r c) (bestArea st, bestCenterDistance st)
      then \<lparr>bestX = fst c, bestY = snd c, bestArea = fst (scoreAt b r c),
            bestCenterDistance = snd (scoreAt b r c), found = True\<rparr>
      else st)"

text \<open>
  The invariant of the two loops of \<open>findBestPlacement\<close>, after the surviving
  candidates \<open>seen\<close>: nothing was found yet, or the best one so far is the first of the
  candidates with the least score.
\<close>

definition bestInv :: "bounds \<Rightarrow> Rectangle \<Rightarrow> (gint \<times> gint) list \<Rightarrow> best \<Rightarrow> bool" where
  "bestInv b r seen st =
     (if seen = [] then st = initialBest
      else found st \<and> (bestArea st, bestCenterDistance st) = scoreAt b r (bestX st, bestY st)
         \<and> (\<exists>pre post. seen = pre @ (bestX st, bestY st) # post
               \<and> (\<forall>c \<in> set pre. better (scoreAt b r (bestX st, bestY st)) (scoreAt b r c))
               \<and> (\<forall>c \<in> set post. \<not> better (scoreAt b r c) (scoreAt b r (bestX st, bestY st)))))"

text \<open>The signed minimum and maximum that \<open>computeBounds\<close> folds over the placements.\<close>

definition sminl :: "gint \<Rightarrow> gint list \<Rightarrow> gint" where
  "sminl m vs = foldl (\<lambda>m v. if v <s m then v else m) m vs"

definition smaxl :: "gint \<Rightarrow> gint list \<Rightarrow> gint" where
  "smaxl m vs = foldl (\<lambda>m v. if m <s v then v else m) m vs"

text \<open>
  One turn of the loop of \<open>Pack\<close> appends \<open>placed p pos cx cy\<close>, where
  \<open>chosen\<close> holds of the position: the origin for the first rectangle, and afterwards the
  result of \<open>findBestPlacement\<close> or the fallback.
\<close>

definition chosen ::
  "rangeOrder \<Rightarrow> rangeOrder \<Rightarrow> Packable \<Rightarrow> placement list \<Rightarrow> nat \<Rightarrow> gint \<Rightarrow> gint \<Rightarrow> bool" where
  "chosen xOrder yOrder p ps pos cx cy =
     (if ps = [] then cx = 0 \<and> cy = 0
      else \<exists>b. computeBounds ps = Some b
        \<and> (cx, cy) =
            (case findBestPlacement (xOrder (xKeys ps)) (yOrder (yKeys ps)) b (p ! pos) ps of
               (bx, by, f) \<Rightarrow> if \<not> f then (maxX b, minY b) else (bx, by)))"

definition placed :: "Packable \<Rightarrow> nat \<Rightarrow> gint \<Rightarrow> gint \<Rightarrow> placement" where
  "placed p pos cx cy =
     \<lparr>position = pos, x = cx, y = cy, width = Width (p ! pos), height = Height (p ! pos)\<rparr>"

text \<open>
  What holds of the placements after every turn, on all inputs: each placement has the
  size of its rectangle, no two placements intersect, and the first one is at the origin.
\<close>

definition layoutInv :: "Packable \<Rightarrow> placement list \<Rightarrow> bool" where
  "layoutInv p ps =
     ((\<forall>q \<in> set ps. width q = Width (p ! position q) \<and> height q = Height (p ! position q))
      \<and> sorted_wrt (\<lambda>a b. \<not> doRectanglesIntersect a b) ps
      \<and> (ps \<noteq> [] \<longrightarrow> x (hd ps) = 0 \<and> y (hd ps) = 0))"

text \<open>On inputs that fit: every placement lies between 0 and the sums of the sizes placed.\<close>

definition inBox :: "int \<Rightarrow> int \<Rightarrow> placement list \<Rightarrow> bool" where
  "inBox S T ps =
     (\<forall>q \<in> set ps. 0 \<le> sint (x q) \<and> 0 \<le> sint (width q) \<and> sint (x q) + sint (width q) \<le> S
        \<and> 0 \<le> sint (y q) \<and> 0 \<le> sint (height q) \<and> sint (y q) + sint (height q) \<le> T)"

section \<open>A sort and two iteration orders to run the model with\<close>

text \<open>
  A stable insertion sort, which meets the contract of \<open>sort.Slice\<close>, and two
  iteration orders of a map: the keys in the order in which they were first inserted, and
  the reverse of that order.
\<close>

fun insertBy :: "(nat \<Rightarrow> nat \<Rightarrow> bool) \<Rightarrow> nat \<Rightarrow> nat list \<Rightarrow> nat list" where
  "insertBy lt a [] = [a]"
| "insertBy lt a (b # bs) = (if lt b a then b # insertBy lt a bs else a # b # bs)"

definition insertionSort :: sortSlice where
  "insertionSort lt xs = foldr (insertBy lt) xs []"

definition firstOrder :: rangeOrder where
  "firstOrder ks = rev (remdups (rev ks))"

definition lastOrder :: rangeOrder where
  "lastOrder ks = rev (firstOrder ks)"

text \<open>Three inputs: one whose coordinates overflow, a small one, and two equal squares.\<close>

definition overflowInput :: Packable where
  "overflowInput =
     [\<lparr>Width = 4611686018427387904, Height = 2\<rparr>, \<lparr>Width = 4611686018427387904, Height = 2\<rparr>,
      \<lparr>Width = 4611686018427387904, Height = 2\<rparr>, \<lparr>Width = 4611686018427387905, Height = 1\<rparr>]"

definition smallInput :: Packable where
  "smallInput = [\<lparr>Width = 1, Height = 1\<rparr>, \<lparr>Width = 3, Height = 2\<rparr>, \<lparr>Width = 2, Height = 2\<rparr>]"

definition squaresInput :: Packable where
  "squaresInput = [\<lparr>Width = 2, Height = 2\<rparr>, \<lparr>Width = 2, Height = 2\<rparr>]"


text \<open>
  Four more inputs: one in which a product of width and height wraps around, the five
  rectangles of the repository's test \<open>TestPack_MultipleRectangles\<close>, a tall and a wide
  rectangle of the same area, and a long rectangle with a unit square, for which the
  area of a bounding box wraps around.
\<close>

definition bigInput :: Packable where
  "bigInput = [\<lparr>Width = 4294967296, Height = 4294967296\<rparr>, \<lparr>Width = 1, Height = 1\<rparr>]"

definition testInput :: Packable where
  "testInput =
     [\<lparr>Width = 100, Height = 200\<rparr>, \<lparr>Width = 50, Height = 50\<rparr>, \<lparr>Width = 80, Height = 120\<rparr>,
      \<lparr>Width = 30, Height = 60\<rparr>, \<lparr>Width = 70, Height = 70\<rparr>]"



section \<open>Arithmetic on 64-bit integers\<close>

lemma square_mod4: fixes a :: int shows "a * a mod 4 = 0 \<or> a * a mod 4 = 1"
proof -
  have c: "a mod 4 = 0 \<or> a mod 4 = 1 \<or> a mod 4 = 2 \<or> a mod 4 = 3" by presburger
  have e: "a * a mod 4 = (a mod 4) * (a mod 4) mod 4" by (simp add: mod_mult_eq)
  from c show ?thesis unfolding e by auto
qed

lemma sum_squares_mod4: fixes a b :: int shows "(a * a + b * b) mod 4 \<noteq> 3"
proof -
  have e: "(a * a + b * b) mod 4 = (a * a mod 4 + b * b mod 4) mod 4" by (simp add: mod_add_eq)
  from square_mod4 [of a] square_mod4 [of b] show ?thesis unfolding e by auto
qed

lemma sum_squares_not_MaxInt64: fixes dx dy :: gint shows "dx * dx + dy * dy \<noteq> MaxInt64"
proof
  assume h: "dx * dx + dy * dy = MaxInt64"
  have "uint (dx * dx + dy * dy) = (uint dx * uint dx + uint dy * uint dy) mod 2 ^ 64"
    by (simp add: uint_word_ariths mod_simps)
  moreover have "uint MaxInt64 = 9223372036854775807" by (simp add: MaxInt64_def)
  ultimately have "(uint dx * uint dx + uint dy * uint dy) mod 2 ^ 64 = 9223372036854775807"
    using h by simp
  then have "((uint dx * uint dx + uint dy * uint dy) mod 2 ^ 64) mod 4 = 9223372036854775807 mod (4::int)"
    by simp
  moreover have "((uint dx * uint dx + uint dy * uint dy) mod 2 ^ 64) mod 4 = (uint dx * uint dx + uint dy * uint dy) mod 4"
    by (rule mod_mod_cancel) simp
  ultimately have "(uint dx * uint dx + uint dy * uint dy) mod 4 = 3" by simp
  with sum_squares_mod4 show False by blast
qed

lemma sle_MaxInt64: "a \<le>s MaxInt64"
  using sint_lt [of a] by (simp add: word_sle_eq MaxInt64_def)

lemma sless_MaxInt64: "a \<noteq> MaxInt64 \<Longrightarrow> a <s MaxInt64"
  using sle_MaxInt64 [of a] by (simp add: word_sless_eq)

lemma nested_foldl:
  "foldl (\<lambda>st a. foldl (\<lambda>st b. f st a b) st ys) st0 xs
     = foldl (\<lambda>st (a, b). f st a b) st0 (List.product xs ys)"
  by (induction xs arbitrary: st0) (simp_all add: foldl_map)
lemma ivl_inter: fixes l1 :: int shows "({l1..<u1} \<inter> {l2..<u2} \<noteq> {}) = (max l1 l2 < min u1 u2)"
  by (auto simp add: ivl_disj_int  atLeastLessThan_inj)

lemma sint_add_no_overflow:
  fixes a b :: gint
  assumes "- (2 ^ 63) \<le> sint a + sint b" "sint a + sint b < 2 ^ 63"
  shows "sint (a + b) = sint a + sint b"
  using assms by (simp add: sint_word_ariths signed_take_bit_int_eq_self)



lemma sint_mult_no_overflow:
  fixes a b :: gint
  assumes "- (2 ^ 63) \<le> sint a * sint b" "sint a * sint b < 2 ^ 63"
  shows "sint (a * b) = sint a * sint b"
  using assms by (simp add: sint_word_ariths signed_take_bit_int_eq_self)







section \<open>The loops of findBestPlacement\<close>

lemma considerCandidate_accept:
  "considerCandidate b r ps st cx cy =
     (if hasIntersection (candidateAt r cx cy) ps then st else accept b r st (cx, cy))"
  by (simp add: considerCandidate_def accept_def better_def scoreAt_def Let_def candidateAt_def
        split: prod.splits)

lemma foldl_filter:
  "foldl f s (filter P xs) = foldl (\<lambda>s a. if P a then f s a else s) s xs"
  by (induction xs arbitrary: s) simp_all

lemma findBestPlacement_fold:
  "findBestPlacement xs ys b r ps =
     (let st = foldl (accept b r) initialBest (survivingCandidates xs ys r ps)
      in (bestX st, bestY st, found st))"
proof -
  have "(\<lambda>st (cx, cy). considerCandidate b r ps st cx cy)
      = (\<lambda>st c. if \<not> hasIntersection (candidateAt r (fst c) (snd c)) ps then accept b r st c else st)"
    by (auto simp: fun_eq_iff considerCandidate_accept)
  then show ?thesis
    by (simp add: findBestPlacement_def survivingCandidates_def nested_foldl foldl_filter)
qed

lemma better_trans: "better s t \<Longrightarrow> better t u \<Longrightarrow> better s u"
  by (auto simp: better_def word_sless_alt)

lemma better_trans2: "better s t \<Longrightarrow> \<not> better u t \<Longrightarrow> better s u"
  by (cases s; cases t; cases u) (auto simp: better_def word_sless_alt dest: signed_word_eqI)

lemma snd_candidateScore_not_MaxInt64: "snd (candidateScore b c) \<noteq> MaxInt64"
  by (simp add: candidateScore_def Let_def sum_squares_not_MaxInt64)

lemma better_initial: "better (scoreAt b r c) (MaxInt64, MaxInt64)"
  using sless_MaxInt64 [of "fst (scoreAt b r c)"] sless_MaxInt64 [of "snd (scoreAt b r c)"]
    snd_candidateScore_not_MaxInt64 [of b "candidateAt r (fst c) (snd c)"]
  by (auto simp: better_def scoreAt_def)

lemma bestInv_fold: "bestInv b r cs (foldl (accept b r) initialBest cs)"
proof (induction cs rule: rev_induct)
  case Nil
  show ?case by (simp add: bestInv_def)
next
  case (snoc c cs)
  let ?st = "foldl (accept b r) initialBest cs"
  show ?case
  proof (cases "cs = []")
    case True
    then show ?thesis
      using better_initial [of b r c]
      by (auto simp add: bestInv_def accept_def initialBest_def scoreAt_def intro: exI [of _ "[]"])
  next
    case False
    with snoc have f: "found ?st"
      and sc: "(bestArea ?st, bestCenterDistance ?st) = scoreAt b r (bestX ?st, bestY ?st)"
      and ex: "\<exists>pre post. cs = pre @ (bestX ?st, bestY ?st) # post
               \<and> (\<forall>c \<in> set pre. better (scoreAt b r (bestX ?st, bestY ?st)) (scoreAt b r c))
               \<and> (\<forall>c \<in> set post. \<not> better (scoreAt b r c) (scoreAt b r (bestX ?st, bestY ?st)))"
      by (simp_all add: bestInv_def)
    from ex obtain pre post where cs: "cs = pre @ (bestX ?st, bestY ?st) # post"
      and pre: "\<forall>c \<in> set pre. better (scoreAt b r (bestX ?st, bestY ?st)) (scoreAt b r c)"
      and post: "\<forall>c \<in> set post. \<not> better (scoreAt b r c) (scoreAt b r (bestX ?st, bestY ?st))"
      by blast
    show ?thesis
    proof (cases "better (scoreAt b r c) (scoreAt b r (bestX ?st, bestY ?st))")
      case True
      have all: "\<forall>d \<in> set cs. better (scoreAt b r c) (scoreAt b r d)"
      proof
        fix d assume "d \<in> set cs"
        then have "d \<in> set pre \<or> d = (bestX ?st, bestY ?st) \<or> d \<in> set post"
          using cs by (metis Un_iff set_ConsD set_append)
        then show "better (scoreAt b r c) (scoreAt b r d)"
          using True pre post better_trans better_trans2 by blast
      qed
      have "accept b r ?st c = \<lparr>bestX = fst c, bestY = snd c, bestArea = fst (scoreAt b r c),
            bestCenterDistance = snd (scoreAt b r c), found = True\<rparr>"
        using True sc by (simp add: accept_def)
      moreover have "\<exists>pre' post'. cs @ [c] = pre' @ c # post'
          \<and> (\<forall>d \<in> set pre'. better (scoreAt b r c) (scoreAt b r d))
          \<and> (\<forall>d \<in> set post'. \<not> better (scoreAt b r d) (scoreAt b r c))"
        using all by (intro exI [of _ cs] exI [of _ "[]"]) simp
      ultimately show ?thesis
        by (simp add: bestInv_def)
    next
      case False
      then have "accept b r ?st c = ?st"
        using sc by (simp add: accept_def)
      moreover have "\<exists>pre' post'. cs @ [c] = pre' @ (bestX ?st, bestY ?st) # post'
          \<and> (\<forall>d \<in> set pre'. better (scoreAt b r (bestX ?st, bestY ?st)) (scoreAt b r d))
          \<and> (\<forall>d \<in> set post'. \<not> better (scoreAt b r d) (scoreAt b r (bestX ?st, bestY ?st)))"
        using pre post False cs
        by (intro exI [of _ pre] exI [of _ "post @ [c]"]) auto
      ultimately show ?thesis
        using f sc by (simp add: bestInv_def)
    qed
  qed
qed

section \<open>Bounds and candidates\<close>

lemma sminl_simps [simp]:
  "sminl m [] = m" "sminl m (v # vs) = sminl (if v <s m then v else m) vs"
  by (simp_all add: sminl_def)

lemma smaxl_simps [simp]:
  "smaxl m [] = m" "smaxl m (v # vs) = smaxl (if m <s v then v else m) vs"
  by (simp_all add: smaxl_def)

lemma sminl_le_init: "sminl m vs \<le>s m"
proof (induction vs arbitrary: m)
  case (Cons v vs)
  show ?case using Cons [of "if v <s m then v else m"]
    by (auto simp: word_sle_eq word_sless_alt)
qed simp

lemma sminl_le: "v \<in> set vs \<Longrightarrow> sminl m vs \<le>s v"
proof (induction vs arbitrary: m)
  case (Cons w vs)
  show ?case
  proof (cases "v = w")
    case True
    then show ?thesis using sminl_le_init [of "if w <s m then w else m" vs]
      by (auto simp: word_sle_eq word_sless_alt split: if_splits)
  next
    case False
    then show ?thesis using Cons by simp
  qed
qed simp

lemma sminl_mem: "sminl m vs \<in> insert m (set vs)"
  by (induction vs arbitrary: m) (simp, force)

lemma smaxl_ge_init: "m \<le>s smaxl m vs"
proof (induction vs arbitrary: m)
  case (Cons v vs)
  show ?case using Cons [of "if m <s v then v else m"]
    by (auto simp: word_sle_eq word_sless_alt)
qed simp

lemma smaxl_ge: "v \<in> set vs \<Longrightarrow> v \<le>s smaxl m vs"
proof (induction vs arbitrary: m)
  case (Cons w vs)
  show ?case
  proof (cases "v = w")
    case True
    then show ?thesis using smaxl_ge_init [of "if m <s w then w else m" vs]
      by (auto simp: word_sle_eq word_sless_alt split: if_splits)
  next
    case False
    then show ?thesis using Cons by simp
  qed
qed simp

lemma smaxl_mem: "smaxl m vs \<in> insert m (set vs)"
  by (induction vs arbitrary: m) (simp, force)

lemma expand_fields:
  "minX (expandBoundsForPlacement r b) = (if x r <s minX b then x r else minX b)"
  "minY (expandBoundsForPlacement r b) = (if y r <s minY b then y r else minY b)"
  "maxX (expandBoundsForPlacement r b) = (if maxX b <s x r + width r then x r + width r else maxX b)"
  "maxY (expandBoundsForPlacement r b) = (if maxY b <s y r + height r then y r + height r else maxY b)"
  by (simp_all add: expandBoundsForPlacement_def Let_def)

lemma foldl_expand_fields:
  "minX (foldl (\<lambda>b r. expandBoundsForPlacement r b) b0 ps) = sminl (minX b0) (map x ps)"
  "minY (foldl (\<lambda>b r. expandBoundsForPlacement r b) b0 ps) = sminl (minY b0) (map y ps)"
  "maxX (foldl (\<lambda>b r. expandBoundsForPlacement r b) b0 ps) = smaxl (maxX b0) (map (\<lambda>r. x r + width r) ps)"
  "maxY (foldl (\<lambda>b r. expandBoundsForPlacement r b) b0 ps) = smaxl (maxY b0) (map (\<lambda>r. y r + height r) ps)"
  by (induction ps arbitrary: b0) (simp_all add: expand_fields)

lemma computeBounds_expand:
  "computeBounds ps =
     (case ps of [] \<Rightarrow> None
      | p0 # _ \<Rightarrow> Some (foldl (\<lambda>b r. expandBoundsForPlacement r b)
          \<lparr>minX = x p0, minY = y p0, maxX = x p0 + width p0, maxY = y p0 + height p0\<rparr> ps))"
  unfolding computeBounds_def expandBoundsForPlacement_def ..

lemma computeBounds_Some: "ps \<noteq> [] \<Longrightarrow> \<exists>b. computeBounds ps = Some b"
  by (cases ps) (simp_all add: computeBounds_def)

lemma computeBounds_fields:
  assumes "computeBounds ps = Some b"
  shows "minX b = sminl (x (hd ps)) (map x ps)"
    and "minY b = sminl (y (hd ps)) (map y ps)"
    and "maxX b = smaxl (x (hd ps) + width (hd ps)) (map (\<lambda>r. x r + width r) ps)"
    and "maxY b = smaxl (y (hd ps) + height (hd ps)) (map (\<lambda>r. y r + height r) ps)"
proof -
  from assms obtain p0 rest where ps: "ps = p0 # rest" by (cases ps) (auto simp: computeBounds_def)
  with assms have b: "b = foldl (\<lambda>b r. expandBoundsForPlacement r b)
          \<lparr>minX = x p0, minY = y p0, maxX = x p0 + width p0, maxY = y p0 + height p0\<rparr> ps"
    by (simp add: computeBounds_expand)
  show "minX b = sminl (x (hd ps)) (map x ps)"
    unfolding b foldl_expand_fields by (simp add: ps)
  show "minY b = sminl (y (hd ps)) (map y ps)"
    unfolding b foldl_expand_fields by (simp add: ps)
  show "maxX b = smaxl (x (hd ps) + width (hd ps)) (map (\<lambda>r. x r + width r) ps)"
    unfolding b foldl_expand_fields by (simp add: ps)
  show "maxY b = smaxl (y (hd ps) + height (hd ps)) (map (\<lambda>r. y r + height r) ps)"
    unfolding b foldl_expand_fields by (simp add: ps)
qed

lemma computeBounds_lower:
  assumes "computeBounds ps = Some b" "p \<in> set ps"
  shows "minX b \<le>s x p" "minY b \<le>s y p" "x p + width p \<le>s maxX b" "y p + height p \<le>s maxY b"
  using assms computeBounds_fields [OF assms(1)]
  by (simp_all add: sminl_le smaxl_ge)

lemma computeBounds_attained:
  assumes "computeBounds ps = Some b"
  shows "minX b \<in> x ` set ps" "minY b \<in> y ` set ps"
    "maxX b \<in> (\<lambda>r. x r + width r) ` set ps" "maxY b \<in> (\<lambda>r. y r + height r) ` set ps"
proof -
  from assms have ne: "ps \<noteq> []" by (auto simp: computeBounds_def)
  then have hd: "hd ps \<in> set ps" by simp
  show "minX b \<in> x ` set ps"
    using sminl_mem [of "x (hd ps)" "map x ps"] hd computeBounds_fields(1) [OF assms] by auto
  show "minY b \<in> y ` set ps"
    using sminl_mem [of "y (hd ps)" "map y ps"] hd computeBounds_fields(2) [OF assms] by auto
  show "maxX b \<in> (\<lambda>r. x r + width r) ` set ps"
    using smaxl_mem [of "x (hd ps) + width (hd ps)" "map (\<lambda>r. x r + width r) ps"] hd
      computeBounds_fields(3) [OF assms] by auto
  show "maxY b \<in> (\<lambda>r. y r + height r) ` set ps"
    using smaxl_mem [of "y (hd ps) + height (hd ps)" "map (\<lambda>r. y r + height r) ps"] hd
      computeBounds_fields(4) [OF assms] by auto
qed

lemma hasIntersection_iff: "hasIntersection c ps = (\<exists>p \<in> set ps. doRectanglesIntersect c p)"
  by (induction ps) auto

lemma set_xKeys: "set (xKeys ps) = x ` set ps \<union> (\<lambda>r. x r + width r) ` set ps"
  by (auto simp: xKeys_def)

lemma set_yKeys: "set (yKeys ps) = y ` set ps \<union> (\<lambda>r. y r + height r) ` set ps"
  by (auto simp: yKeys_def)

lemma corner_free:
  assumes "computeBounds ps = Some b"
  shows "\<not> hasIntersection (candidateAt r (maxX b) cy) ps"
  using computeBounds_lower(3) [OF assms]
  by (auto simp: hasIntersection_iff doRectanglesIntersect_def candidateAt_def)

lemma corner_survives:
  assumes "computeBounds ps = Some b" "set xs = set (xKeys ps)" "set ys = set (yKeys ps)"
  shows "(maxX b, minY b) \<in> set (survivingCandidates xs ys r ps)"
  using computeBounds_attained(2,3) [OF assms(1)] corner_free [OF assms(1)] assms(2,3)
  by (auto simp: survivingCandidates_def set_xKeys set_yKeys)

lemma findBestPlacement_none:
  "survivingCandidates xs ys r ps = [] \<Longrightarrow> findBestPlacement xs ys b r ps = (0, 0, False)"
  by (simp add: findBestPlacement_fold initialBest_def)

lemma findBestPlacement_some:
  assumes "survivingCandidates xs ys r ps \<noteq> []"
  shows "\<exists>cx cy pre post. findBestPlacement xs ys b r ps = (cx, cy, True)
      \<and> survivingCandidates xs ys r ps = pre @ (cx, cy) # post
      \<and> (\<forall>c \<in> set pre. better (scoreAt b r (cx, cy)) (scoreAt b r c))
      \<and> (\<forall>c \<in> set post. \<not> better (scoreAt b r c) (scoreAt b r (cx, cy)))"
  using bestInv_fold [of b r "survivingCandidates xs ys r ps"] assms
  by (simp add: findBestPlacement_fold bestInv_def Let_def)

lemma distinct_survivingCandidates:
  "distinct xs \<Longrightarrow> distinct ys \<Longrightarrow> distinct (survivingCandidates xs ys r ps)"
  by (simp add: survivingCandidates_def distinct_product)

lemma set_survivingCandidates:
  "set (survivingCandidates xs ys r ps)
     = {c \<in> set xs \<times> set ys. \<not> hasIntersection (candidateAt r (fst c) (snd c)) ps}"
  by (auto simp: survivingCandidates_def)

lemma rangeOrder_ok_firstOrder: "rangeOrder_ok firstOrder"
  by (simp add: rangeOrder_ok_def firstOrder_def)

lemma rangeOrder_ok_lastOrder: "rangeOrder_ok lastOrder"
  by (simp add: rangeOrder_ok_def firstOrder_def lastOrder_def)

section \<open>The intersection test read on integers\<close>

lemma edgesFit_sint:
  assumes "edgesFit a"
  shows "sint (x a + width a) = sint (x a) + sint (width a)"
    and "sint (y a + height a) = sint (y a) + sint (height a)"
  using assms by (simp_all add: edgesFit_def sint_add_no_overflow)

lemma doRectanglesIntersect_edges:
  assumes "edgesFit a" "edgesFit b"
  shows "doRectanglesIntersect a b = edgesOverlap a b"
  by (auto simp: doRectanglesIntersect_def edgesOverlap_def word_sle_eq
      edgesFit_sint [OF assms(1)] edgesFit_sint [OF assms(2)])

lemma edgesOverlap_intervals:
  assumes "0 < sint (width a)" "0 < sint (height a)" "0 < sint (width b)" "0 < sint (height b)"
  shows "edgesOverlap a b = intervalsOverlap a b"
  using assms
  by (auto simp: edgesOverlap_def intervalsOverlap_def xInterval_def yInterval_def ivl_inter)

section \<open>The claims about the helpers\<close>

text \<open>
  C7 as stated fails. A rectangle of width zero inside another one has an empty
  x-interval, yet the test reports an overlap; and where \<open>x + width\<close> wraps around,
  the test reports none for two rectangles with the same intervals.
\<close>

theorem overlap_test_counterexample:
  "doRectanglesIntersect \<lparr>position = 0, x = 5, y = 0, width = 0, height = 1\<rparr>
       \<lparr>position = 1, x = 0, y = 0, width = 10, height = 1\<rparr>
   \<and> \<not> intervalsOverlap \<lparr>position = 0, x = 5, y = 0, width = 0, height = 1\<rparr>
       \<lparr>position = 1, x = 0, y = 0, width = 10, height = 1\<rparr>
   \<and> \<not> doRectanglesIntersect \<lparr>position = 0, x = 9223372036854775807, y = 0, width = 1, height = 1\<rparr>
       \<lparr>position = 1, x = 9223372036854775807, y = 0, width = 1, height = 1\<rparr>
   \<and> intervalsOverlap \<lparr>position = 0, x = 9223372036854775807, y = 0, width = 1, height = 1\<rparr>
       \<lparr>position = 1, x = 9223372036854775807, y = 0, width = 1, height = 1\<rparr>"
  by (simp add: doRectanglesIntersect_def intervalsOverlap_def xInterval_def yInterval_def word_sle_eq)

text \<open>
  C7, amended: for two rectangles whose right and bottom edges fit in 64 bits, so that
  \<open>x + width\<close> and \<open>y + height\<close> do not wrap around, \<open>doRectanglesIntersect\<close>
  reports an overlap exactly when, on both axes, each rectangle starts before the other
  one ends. For rectangles of positive width and height that is exactly when the
  half-open intervals \<open>[x, x + width)\<close> share a point and the intervals
  \<open>[y, y + height)\<close> share a point. Two rectangles that touch at an edge are never
  reported as overlapping. A rectangle of width zero has an empty x-interval and is
  reported as overlapping the other one exactly when its x-coordinate lies strictly
  between the left and the right edge of the other one and the y-coordinates compare as
  above; the same holds for a rectangle of height zero, with the axes exchanged.
\<close>

theorem overlap_test_iff_edges:
  assumes "edgesFit a" "edgesFit b"
  shows "doRectanglesIntersect a b = edgesOverlap a b
    \<and> (0 < sint (width a) \<and> 0 < sint (height a) \<and> 0 < sint (width b) \<and> 0 < sint (height b)
         \<longrightarrow> doRectanglesIntersect a b = intervalsOverlap a b)
    \<and> (x a + width a = x b \<or> x b + width b = x a \<or> y a + height a = y b \<or> y b + height b = y a
         \<longrightarrow> \<not> doRectanglesIntersect a b)
    \<and> (width a = 0 \<longrightarrow> xInterval a = {}
         \<and> doRectanglesIntersect a b
             = (sint (x b) < sint (x a) \<and> sint (x a) < sint (x b) + sint (width b)
                \<and> sint (y a) < sint (y b) + sint (height b) \<and> sint (y b) < sint (y a) + sint (height a)))
    \<and> (height a = 0 \<longrightarrow> yInterval a = {}
         \<and> doRectanglesIntersect a b
             = (sint (y b) < sint (y a) \<and> sint (y a) < sint (y b) + sint (height b)
                \<and> sint (x a) < sint (x b) + sint (width b) \<and> sint (x b) < sint (x a) + sint (width a)))"
proof -
  have e: "doRectanglesIntersect a b = edgesOverlap a b"
    by (rule doRectanglesIntersect_edges [OF assms])
  have i: "0 < sint (width a) \<and> 0 < sint (height a) \<and> 0 < sint (width b) \<and> 0 < sint (height b)
         \<longrightarrow> doRectanglesIntersect a b = intervalsOverlap a b"
    using e edgesOverlap_intervals [of a b] by simp
  have t: "x a + width a = x b \<or> x b + width b = x a \<or> y a + height a = y b \<or> y b + height b = y a
         \<longrightarrow> \<not> doRectanglesIntersect a b"
    by (auto simp: doRectanglesIntersect_def)
  have w: "width a = 0 \<longrightarrow> xInterval a = {}
         \<and> doRectanglesIntersect a b
             = (sint (x b) < sint (x a) \<and> sint (x a) < sint (x b) + sint (width b)
                \<and> sint (y a) < sint (y b) + sint (height b) \<and> sint (y b) < sint (y a) + sint (height a))"
    unfolding e by (auto simp: edgesOverlap_def xInterval_def)
  have h: "height a = 0 \<longrightarrow> yInterval a = {}
         \<and> doRectanglesIntersect a b
             = (sint (y b) < sint (y a) \<and> sint (y a) < sint (y b) + sint (height b)
                \<and> sint (x a) < sint (x b) + sint (width b) \<and> sint (x b) < sint (x a) + sint (width a))"
    unfolding e by (auto simp: edgesOverlap_def yInterval_def)
  from e i t w h show ?thesis by blast
qed

theorem overlap_test_iff_edges_witness:
  "edgesFit \<lparr>position = 0, x = 5, y = 5, width = 0, height = 3\<rparr>
   \<and> edgesFit \<lparr>position = 1, x = 0, y = 0, width = 10, height = 10\<rparr>
   \<and> edgesFit \<lparr>position = 2, x = 10, y = 0, width = 4, height = 4\<rparr>
   \<and> doRectanglesIntersect \<lparr>position = 0, x = 5, y = 5, width = 0, height = 3\<rparr>
        \<lparr>position = 1, x = 0, y = 0, width = 10, height = 10\<rparr>
   \<and> xInterval \<lparr>position = 0, x = 5, y = 5, width = 0, height = 3\<rparr> = {}
   \<and> \<not> doRectanglesIntersect \<lparr>position = 2, x = 10, y = 0, width = 4, height = 4\<rparr>
        \<lparr>position = 1, x = 0, y = 0, width = 10, height = 10\<rparr>
   \<and> \<not> intervalsOverlap \<lparr>position = 2, x = 10, y = 0, width = 4, height = 4\<rparr>
        \<lparr>position = 1, x = 0, y = 0, width = 10, height = 10\<rparr>"
proof -
  have f: "edgesFit \<lparr>position = 0, x = 5, y = 5, width = 0, height = 3\<rparr>"
    "edgesFit \<lparr>position = 1, x = 0, y = 0, width = 10, height = 10\<rparr>"
    "edgesFit \<lparr>position = 2, x = 10, y = 0, width = 4, height = 4\<rparr>"
    by (simp_all add: edgesFit_def)
  show ?thesis
    using f overlap_test_iff_edges [OF f(1) f(2)] overlap_test_iff_edges [OF f(3) f(2)]
    by (auto simp add: edgesOverlap_def)
qed

text \<open>
  C10: for every non-empty list of placements, the pair \<open>(maxX, minY)\<close> of the current
  bounds is one of the candidate pairs and passes the intersection test, and
  \<open>findBestPlacement\<close> on the candidates derived from the placements returns
  \<open>found = true\<close>: the fallback of \<open>Pack\<close> is never taken.
\<close>

theorem findBestPlacement_always_finds:
  assumes "placements \<noteq> []" "rangeOrder_ok xOrder" "rangeOrder_ok yOrder"
  shows "\<exists>b. computeBounds placements = Some b
     \<and> (maxX b, minY b) \<in> set (survivingCandidates (fst (getCandidatePositions xOrder yOrder placements))
            (snd (getCandidatePositions xOrder yOrder placements)) r placements)
     \<and> (\<exists>bestX bestY. findBestPlacement (fst (getCandidatePositions xOrder yOrder placements))
            (snd (getCandidatePositions xOrder yOrder placements)) b r placements = (bestX, bestY, True))"
proof -
  let ?xs = "xOrder (xKeys placements)" and ?ys = "yOrder (yKeys placements)"
  from assms(1) obtain b where b: "computeBounds placements = Some b"
    using computeBounds_Some by blast
  have s: "set ?xs = set (xKeys placements)" "set ?ys = set (yKeys placements)"
    using assms(2,3) by (simp_all add: rangeOrder_ok_def)
  have c: "(maxX b, minY b) \<in> set (survivingCandidates ?xs ?ys r placements)"
    by (rule corner_survives [OF b s])
  then have "survivingCandidates ?xs ?ys r placements \<noteq> []" by auto
  from findBestPlacement_some [OF this, of b]
  have "\<exists>bestX bestY. findBestPlacement ?xs ?ys b r placements = (bestX, bestY, True)" by blast
  with b c show ?thesis by (simp add: getCandidatePositions_def)
qed

theorem findBestPlacement_always_finds_witness:
  "[\<lparr>position = 0, x = 0, y = 0, width = 2, height = 2\<rparr>] \<noteq> []
   \<and> rangeOrder_ok firstOrder \<and> rangeOrder_ok lastOrder
   \<and> (\<exists>b. computeBounds [\<lparr>position = 0, x = 0, y = 0, width = 2, height = 2\<rparr>] = Some b
     \<and> (maxX b, minY b) \<in> set (survivingCandidates
            (fst (getCandidatePositions firstOrder lastOrder
                    [\<lparr>position = 0, x = 0, y = 0, width = 2, height = 2\<rparr>]))
            (snd (getCandidatePositions firstOrder lastOrder
                    [\<lparr>position = 0, x = 0, y = 0, width = 2, height = 2\<rparr>]))
            \<lparr>Width = 3, Height = 1\<rparr> [\<lparr>position = 0, x = 0, y = 0, width = 2, height = 2\<rparr>])
     \<and> (\<exists>bestX bestY. findBestPlacement
            (fst (getCandidatePositions firstOrder lastOrder
                    [\<lparr>position = 0, x = 0, y = 0, width = 2, height = 2\<rparr>]))
            (snd (getCandidatePositions firstOrder lastOrder
                    [\<lparr>position = 0, x = 0, y = 0, width = 2, height = 2\<rparr>]))
            b \<lparr>Width = 3, Height = 1\<rparr> [\<lparr>position = 0, x = 0, y = 0, width = 2, height = 2\<rparr>]
          = (bestX, bestY, True)))"
proof -
  have h1: "[\<lparr>position = 0, x = 0, y = 0, width = 2, height = 2\<rparr>] \<noteq> []" by simp
  show ?thesis
    using h1 rangeOrder_ok_firstOrder rangeOrder_ok_lastOrder
      findBestPlacement_always_finds [OF h1 rangeOrder_ok_firstOrder rangeOrder_ok_lastOrder,
        of "\<lparr>Width = 3, Height = 1\<rparr>"]
    by blast
qed

section \<open>The turns of the loop of Pack\<close>

lemma packLoop_turn:
  assumes "pos < length p"
  shows "\<exists>cx cy. chosen xOrder yOrder p ps pos cx cy
     \<and> packLoop xOrder yOrder p ps (pos # rest)
       = packLoop xOrder yOrder p (ps @ [placed p pos cx cy]) rest"
proof (cases "ps = []")
  case True
  with assms show ?thesis
    by (simp add: chosen_def placed_def RectangleAt_def)
next
  case False
  then obtain b where b: "computeBounds ps = Some b"
    using computeBounds_Some by blast
  obtain bx "by" f where f: "findBestPlacement (xOrder (xKeys ps)) (yOrder (yKeys ps)) b (p ! pos) ps = (bx, by, f)"
    by (cases "findBestPlacement (xOrder (xKeys ps)) (yOrder (yKeys ps)) b (p ! pos) ps") auto
  show ?thesis
  proof (cases f)
    case True
    with False assms b f show ?thesis
      by (intro exI [of _ bx] exI [of _ "by"])
         (simp add: chosen_def placed_def RectangleAt_def getCandidatePositions_def placeRectangle_def)
  next
    case nf: False
    with False assms b f show ?thesis
      by (intro exI [of _ "maxX b"] exI [of _ "minY b"])
         (simp add: chosen_def placed_def RectangleAt_def getCandidatePositions_def placeRectangle_def)
  qed
qed

lemma findBestPlacement_found_survivor:
  assumes "findBestPlacement xs ys b r ps = (bx, by, True)"
  shows "(bx, by) \<in> set (survivingCandidates xs ys r ps)"
proof (cases "survivingCandidates xs ys r ps = []")
  case True
  from findBestPlacement_none [OF this, of b] assms show ?thesis by simp
next
  case False
  from findBestPlacement_some [OF this, of b] assms show ?thesis by auto
qed

lemma chosen_free:
  assumes "chosen xOrder yOrder p ps pos cx cy"
  shows "\<not> hasIntersection (candidateAt (p ! pos) cx cy) ps"
proof (cases "ps = []")
  case True then show ?thesis by simp
next
  case False
  with assms obtain b where b: "computeBounds ps = Some b"
    and c: "(cx, cy) =
            (case findBestPlacement (xOrder (xKeys ps)) (yOrder (yKeys ps)) b (p ! pos) ps of
               (bx, by, f) \<Rightarrow> if \<not> f then (maxX b, minY b) else (bx, by))"
    by (auto simp: chosen_def)
  obtain bx "by" f where f: "findBestPlacement (xOrder (xKeys ps)) (yOrder (yKeys ps)) b (p ! pos) ps = (bx, by, f)"
    by (cases "findBestPlacement (xOrder (xKeys ps)) (yOrder (yKeys ps)) b (p ! pos) ps") auto
  show ?thesis
  proof (cases f)
    case True
    with f c have "(cx, cy) \<in> set (survivingCandidates (xOrder (xKeys ps)) (yOrder (yKeys ps)) (p ! pos) ps)"
      using findBestPlacement_found_survivor by auto
    then show ?thesis by (simp add: set_survivingCandidates)
  next
    case False
    with f c have "cx = maxX b" by simp
    then show ?thesis using corner_free [OF b] by simp
  qed
qed

lemma chosen_edges:
  assumes "chosen xOrder yOrder p ps pos cx cy" "ps \<noteq> []"
    and "rangeOrder_ok xOrder" "rangeOrder_ok yOrder"
  shows "cx \<in> set (xKeys ps)" "cy \<in> set (yKeys ps)"
proof -
  from assms obtain b where b: "computeBounds ps = Some b"
    and c: "(cx, cy) =
            (case findBestPlacement (xOrder (xKeys ps)) (yOrder (yKeys ps)) b (p ! pos) ps of
               (bx, by, f) \<Rightarrow> if \<not> f then (maxX b, minY b) else (bx, by))"
    by (auto simp: chosen_def)
  have s: "set (xOrder (xKeys ps)) = set (xKeys ps)" "set (yOrder (yKeys ps)) = set (yKeys ps)"
    using assms(3,4) by (simp_all add: rangeOrder_ok_def)
  obtain bx "by" f where f: "findBestPlacement (xOrder (xKeys ps)) (yOrder (yKeys ps)) b (p ! pos) ps = (bx, by, f)"
    by (cases "findBestPlacement (xOrder (xKeys ps)) (yOrder (yKeys ps)) b (p ! pos) ps") auto
  have "cx \<in> set (xKeys ps) \<and> cy \<in> set (yKeys ps)"
  proof (cases f)
    case True
    with f c have "(cx, cy) \<in> set (survivingCandidates (xOrder (xKeys ps)) (yOrder (yKeys ps)) (p ! pos) ps)"
      using findBestPlacement_found_survivor by auto
    then show ?thesis by (simp add: set_survivingCandidates s)
  next
    case False
    with f c have "cx = maxX b" "cy = minY b" by simp_all
    then show ?thesis using computeBounds_attained(2,3) [OF b] by (auto simp: set_xKeys set_yKeys)
  qed
  then show "cx \<in> set (xKeys ps)" "cy \<in> set (yKeys ps)" by simp_all
qed

lemma doRectanglesIntersect_sym: "doRectanglesIntersect a b = doRectanglesIntersect b a"
  by (auto simp: doRectanglesIntersect_def)

lemma doRectanglesIntersect_cong:
  "x a = x a' \<Longrightarrow> y a = y a' \<Longrightarrow> width a = width a' \<Longrightarrow> height a = height a'
   \<Longrightarrow> doRectanglesIntersect a b = doRectanglesIntersect a' b"
  by (simp add: doRectanglesIntersect_def)

lemma layoutInv_turn:
  assumes "layoutInv p ps" "chosen xOrder yOrder p ps pos cx cy"
  shows "layoutInv p (ps @ [placed p pos cx cy])"
proof -
  have "\<forall>a \<in> set ps. \<not> doRectanglesIntersect a (placed p pos cx cy)"
  proof
    fix a assume "a \<in> set ps"
    with chosen_free [OF assms(2)] have "\<not> doRectanglesIntersect (candidateAt (p ! pos) cx cy) a"
      by (simp add: hasIntersection_iff)
    then have "\<not> doRectanglesIntersect (placed p pos cx cy) a"
      using doRectanglesIntersect_cong [of "candidateAt (p ! pos) cx cy" "placed p pos cx cy" a]
      by (simp add: candidateAt_def placed_def)
    then show "\<not> doRectanglesIntersect a (placed p pos cx cy)"
      by (simp add: doRectanglesIntersect_sym)
  qed
  moreover have "ps = [] \<Longrightarrow> cx = 0 \<and> cy = 0"
    using assms(2) by (simp add: chosen_def)
  ultimately show ?thesis
    using assms(1)
    by (cases ps) (auto simp: layoutInv_def sorted_wrt_append placed_def)
qed

lemma packLoop_layoutInv:
  assumes "\<forall>pos \<in> set rest. pos < length p" "layoutInv p ps"
  shows "\<exists>ps'. packLoop xOrder yOrder p ps rest = Some (ps @ ps')
     \<and> map position ps' = rest \<and> layoutInv p (ps @ ps')"
  using assms
proof (induction rest arbitrary: ps)
  case Nil
  then show ?case by simp
next
  case (Cons pos rest)
  then have "pos < length p" by simp
  from packLoop_turn [OF this, of xOrder yOrder ps rest]
  obtain cx cy where c: "chosen xOrder yOrder p ps pos cx cy"
    and e: "packLoop xOrder yOrder p ps (pos # rest)
       = packLoop xOrder yOrder p (ps @ [placed p pos cx cy]) rest"
    by blast
  have "layoutInv p (ps @ [placed p pos cx cy])"
    by (rule layoutInv_turn [OF Cons.prems(2) c])
  with Cons.IH [of "ps @ [placed p pos cx cy]"] Cons.prems(1)
  obtain ps' where "packLoop xOrder yOrder p (ps @ [placed p pos cx cy]) rest
        = Some ((ps @ [placed p pos cx cy]) @ ps')"
    "map position ps' = rest" "layoutInv p ((ps @ [placed p pos cx cy]) @ ps')"
    by auto
  then show ?case
    unfolding e
    by (intro exI [of _ "placed p pos cx cy # ps'"]) (simp add: placed_def)
qed

section \<open>The sort\<close>

lemma mset_insertBy: "mset (insertBy lt a bs) = add_mset a (mset bs)"
  by (induction bs) simp_all

lemma set_insertBy: "set (insertBy lt a bs) = insert a (set bs)"
  by (induction bs) auto

lemma mset_insertionSort: "mset (insertionSort lt xs) = mset xs"
  by (induction xs) (simp_all add: insertionSort_def mset_insertBy)

lemma sorted_insertBy:
  assumes "strictWeakOrder lt" "sorted_wrt (\<lambda>a b. \<not> lt b a) bs"
  shows "sorted_wrt (\<lambda>a b. \<not> lt b a) (insertBy lt a bs)"
  using assms(2)
proof (induction bs)
  case Nil
  then show ?case by simp
next
  case (Cons b bs)
  have irr: "\<And>u. \<not> lt u u" and tr: "\<And>u v w. lt u v \<Longrightarrow> lt v w \<Longrightarrow> lt u w"
    and nt: "\<And>u v w. \<not> lt u v \<Longrightarrow> \<not> lt v w \<Longrightarrow> \<not> lt u w"
    using assms(1) unfolding strictWeakOrder_def by blast+
  show ?case
  proof (cases "lt b a")
    case True
    then have "\<not> lt a b" using irr tr by blast
    with True Cons show ?thesis by (auto simp: set_insertBy)
  next
    case False
    then have "\<forall>c \<in> set bs. \<not> lt c a" using Cons.prems nt by auto
    with False Cons.prems show ?thesis by simp
  qed
qed

lemma sorted_insertionSort:
  "strictWeakOrder lt \<Longrightarrow> sorted_wrt (\<lambda>a b. \<not> lt b a) (insertionSort lt xs)"
  by (induction xs) (simp_all add: insertionSort_def sorted_insertBy)

lemma sortSlice_ok_insertionSort: "sortSlice_ok insertionSort"
  by (simp add: sortSlice_ok_def mset_insertionSort sorted_insertionSort)

lemma strictWeakOrder_areaGreater: "strictWeakOrder (areaGreater p)"
  by (auto simp: strictWeakOrder_def areaGreater_def word_sless_alt)

lemma sortedPositions_perm:
  "sortSlice_ok srt \<Longrightarrow> mset (sortedPositions srt p) = mset [0..<Len p]"
  by (simp add: sortSlice_ok_def sortedPositions_def)

lemma sortedPositions_set:
  "sortSlice_ok srt \<Longrightarrow> set (sortedPositions srt p) = {0..<length p}"
  using sortedPositions_perm [of srt p, THEN mset_eq_setD] by (simp add: Len_def)

lemma sortedPositions_sorted:
  assumes "sortSlice_ok srt"
  shows "sorted_wrt (\<lambda>a b. Area (p ! b) \<le>s Area (p ! a)) (sortedPositions srt p)"
proof -
  have "sorted_wrt (\<lambda>a b. \<not> areaGreater p b a) (sortedPositions srt p)"
    using assms strictWeakOrder_areaGreater [of p]
    by (simp add: sortSlice_ok_def sortedPositions_def)
  then show ?thesis
    by (simp add: areaGreater_def signed.not_less)
qed

lemma layoutInv_Nil: "layoutInv p []"
  by (simp add: layoutInv_def)

lemma layout_Some:
  assumes "sortSlice_ok srt"
  shows "\<exists>ps. layout srt xOrder yOrder p = Some ps
     \<and> map position ps = sortedPositions srt p \<and> layoutInv p ps"
  using packLoop_layoutInv [of "sortedPositions srt p" p "[]" xOrder yOrder]
    sortedPositions_set [OF assms, of p] layoutInv_Nil [of p]
  by (auto simp: layout_def)

section \<open>Inputs whose coordinates do not overflow\<close>

lemma inBox_edges:
  assumes "inBox S T ps" "S < 2 ^ 63" "T < 2 ^ 63" "q \<in> set ps"
  shows "sint (x q + width q) = sint (x q) + sint (width q)"
    and "sint (y q + height q) = sint (y q) + sint (height q)"
  using assms by (auto simp: inBox_def intro!: sint_add_no_overflow)

lemma inBox_xKeys:
  assumes "inBox S T ps" "S < 2 ^ 63" "T < 2 ^ 63" "c \<in> set (xKeys ps)"
  shows "0 \<le> sint c \<and> sint c \<le> S"
proof -
  from assms(4) obtain q where q: "q \<in> set ps" and c: "c = x q \<or> c = x q + width q"
    by (auto simp: set_xKeys)
  from c show ?thesis
    using inBox_edges(1) [OF assms(1-3) q] assms(1) q by (auto simp: inBox_def)
qed

lemma inBox_yKeys:
  assumes "inBox S T ps" "S < 2 ^ 63" "T < 2 ^ 63" "c \<in> set (yKeys ps)"
  shows "0 \<le> sint c \<and> sint c \<le> T"
proof -
  from assms(4) obtain q where q: "q \<in> set ps" and c: "c = y q \<or> c = y q + height q"
    by (auto simp: set_yKeys)
  from c show ?thesis
    using inBox_edges(2) [OF assms(1-3) q] assms(1) q by (auto simp: inBox_def)
qed

lemma inBox_mono: "inBox S T ps \<Longrightarrow> S \<le> S' \<Longrightarrow> T \<le> T' \<Longrightarrow> inBox S' T' ps"
  by (fastforce simp: inBox_def)

lemma inBox_turn:
  assumes "inBox S T ps" "chosen xOrder yOrder p ps pos cx cy"
    and "rangeOrder_ok xOrder" "rangeOrder_ok yOrder"
    and "0 \<le> S" "0 \<le> T"
    and "0 \<le> sint (Width (p ! pos))" "0 \<le> sint (Height (p ! pos))"
    and "S + sint (Width (p ! pos)) < 2 ^ 63" "T + sint (Height (p ! pos)) < 2 ^ 63"
  shows "inBox (S + sint (Width (p ! pos))) (T + sint (Height (p ! pos))) (ps @ [placed p pos cx cy])"
proof -
  have c: "0 \<le> sint cx \<and> sint cx \<le> S \<and> 0 \<le> sint cy \<and> sint cy \<le> T"
  proof (cases "ps = []")
    case True
    with assms(2) have "cx = 0" "cy = 0" by (simp_all add: chosen_def)
    with assms(5,6) show ?thesis by simp
  next
    case False
    have S: "S < 2 ^ 63" and T: "T < 2 ^ 63" using assms(7-10) by simp_all
    from chosen_edges [OF assms(2) False assms(3,4)]
    show ?thesis
      using inBox_xKeys [OF assms(1) S T, of cx] inBox_yKeys [OF assms(1) S T, of cy] by simp
  qed
  have old: "inBox (S + sint (Width (p ! pos))) (T + sint (Height (p ! pos))) ps"
    using assms(1,7,8) by (auto intro: inBox_mono)
  show ?thesis
    using c old assms(7,8) by (auto simp: inBox_def placed_def)
qed

lemma packLoop_inBox:
  assumes "rangeOrder_ok xOrder" "rangeOrder_ok yOrder"
    and "\<forall>pos \<in> set rest. pos < length p \<and> 0 \<le> sint (Width (p ! pos)) \<and> 0 \<le> sint (Height (p ! pos))"
    and "inBox S T ps" "0 \<le> S" "0 \<le> T"
    and "S + sum_list (map (\<lambda>n. sint (Width (p ! n))) rest) < 2 ^ 63"
    and "T + sum_list (map (\<lambda>n. sint (Height (p ! n))) rest) < 2 ^ 63"
    and "packLoop xOrder yOrder p ps rest = Some ps'"
  shows "inBox (S + sum_list (map (\<lambda>n. sint (Width (p ! n))) rest))
           (T + sum_list (map (\<lambda>n. sint (Height (p ! n))) rest)) ps'"
  using assms(3-)
proof (induction rest arbitrary: ps S T)
  case Nil
  then show ?case by simp
next
  case (Cons pos rest)
  let ?W = "sint (Width (p ! pos))" and ?H = "sint (Height (p ! pos))"
  let ?sw = "sum_list (map (\<lambda>n. sint (Width (p ! n))) rest)"
  let ?sh = "sum_list (map (\<lambda>n. sint (Height (p ! n))) rest)"
  have pos: "pos < length p" "0 \<le> ?W" "0 \<le> ?H" using Cons.prems(1) by simp_all
  have nn: "0 \<le> ?sw" "0 \<le> ?sh"
    using Cons.prems(1) by (auto intro!: sum_list_nonneg)
  from packLoop_turn [OF pos(1), of xOrder yOrder ps rest]
  obtain cx cy where c: "chosen xOrder yOrder p ps pos cx cy"
    and e: "packLoop xOrder yOrder p ps (pos # rest)
       = packLoop xOrder yOrder p (ps @ [placed p pos cx cy]) rest"
    by blast
  have b: "S + ?W < 2 ^ 63" "T + ?H < 2 ^ 63"
    using Cons.prems(5,6) nn by simp_all
  have i: "inBox (S + ?W) (T + ?H) (ps @ [placed p pos cx cy])"
    by (rule inBox_turn [OF Cons.prems(2) c assms(1,2) Cons.prems(3,4) pos(2,3) b])
  have "inBox ((S + ?W) + ?sw) ((T + ?H) + ?sh) ps'"
  proof (rule Cons.IH [OF _ i])
    show "\<forall>pos \<in> set rest. pos < length p \<and> 0 \<le> sint (Width (p ! pos)) \<and> 0 \<le> sint (Height (p ! pos))"
      using Cons.prems(1) by simp
    show "0 \<le> S + ?W" "0 \<le> T + ?H" using Cons.prems(3,4) pos by simp_all
    show "S + ?W + ?sw < 2 ^ 63" "T + ?H + ?sh < 2 ^ 63" using Cons.prems(5,6) by simp_all
    show "packLoop xOrder yOrder p (ps @ [placed p pos cx cy]) rest = Some ps'"
      using Cons.prems(7) e by simp
  qed
  then show ?case by (simp add: add.assoc)
qed

lemma sum_list_perm_positions:
  fixes f :: "'a \<Rightarrow> int"
  assumes "mset ns = mset [0..<length p]"
  shows "sum_list (map (\<lambda>n. f (p ! n)) ns) = sum_list (map f p)"
proof -
  have "image_mset (\<lambda>n. f (p ! n)) (mset ns) = image_mset (\<lambda>n. f (p ! n)) (mset [0..<length p])"
    by (simp only: assms)
  then have "mset (map (\<lambda>n. f (p ! n)) ns) = mset (map (\<lambda>n. f (p ! n)) [0..<length p])"
    by (simp only: mset_map)
  then have "sum_mset (mset (map (\<lambda>n. f (p ! n)) ns))
      = sum_mset (mset (map (\<lambda>n. f (p ! n)) [0..<length p]))"
    by (rule arg_cong)
  then have e: "sum_list (map (\<lambda>n. f (p ! n)) ns) = sum_list (map (\<lambda>n. f (p ! n)) [0..<length p])"
    by (simp only: sum_mset_sum_list)
  have "map (\<lambda>n. f (p ! n)) [0..<length p] = map f (map (\<lambda>n. p ! n) [0..<length p])"
    by (simp only: map_map comp_def)
  also have "\<dots> = map f p"
    by (simp only: map_nth)
  finally show ?thesis
    using e by (simp only:)
qed

lemma layout_inBox:
  assumes "sortSlice_ok srt" "rangeOrder_ok xOrder" "rangeOrder_ok yOrder" "fits p"
    and "layout srt xOrder yOrder p = Some ps"
  shows "inBox (sum_list (map (\<lambda>r. sint (Width r)) p)) (sum_list (map (\<lambda>r. sint (Height r)) p)) ps"
proof -
  let ?ns = "sortedPositions srt p"
  have perm: "mset ?ns = mset [0..<length p]"
    using sortedPositions_perm [OF assms(1), of p] by (simp add: Len_def)
  have sw: "sum_list (map (\<lambda>n. sint (Width (p ! n))) ?ns) = sum_list (map (\<lambda>r. sint (Width r)) p)"
    and sh: "sum_list (map (\<lambda>n. sint (Height (p ! n))) ?ns) = sum_list (map (\<lambda>r. sint (Height r)) p)"
    using sum_list_perm_positions [OF perm, of "\<lambda>r. sint (Width r)"]
      sum_list_perm_positions [OF perm, of "\<lambda>r. sint (Height r)"] by simp_all
  have "inBox (0 + sum_list (map (\<lambda>n. sint (Width (p ! n))) ?ns))
           (0 + sum_list (map (\<lambda>n. sint (Height (p ! n))) ?ns)) ps"
  proof (rule packLoop_inBox [OF assms(2,3)])
    show "\<forall>pos \<in> set ?ns. pos < length p \<and> 0 \<le> sint (Width (p ! pos)) \<and> 0 \<le> sint (Height (p ! pos))"
      using sortedPositions_set [OF assms(1), of p] assms(4)
      by (auto simp: fits_def word_sle_eq)
    show "inBox 0 0 []" by (simp add: inBox_def)
    show "0 + sum_list (map (\<lambda>n. sint (Width (p ! n))) ?ns) < 2 ^ 63"
      "0 + sum_list (map (\<lambda>n. sint (Height (p ! n))) ?ns) < 2 ^ 63"
      using assms(4) unfolding sw sh by (simp_all add: fits_def)
    show "packLoop xOrder yOrder p [] ?ns = Some ps"
      using assms(5) by (simp add: layout_def)
  qed simp_all
  then show ?thesis unfolding sw sh by simp
qed

lemma Pack_Some:
  assumes "sortSlice_ok srt" "Len p \<noteq> 0"
  shows "\<exists>ps b. layout srt xOrder yOrder p = Some ps
      \<and> map position ps = sortedPositions srt p \<and> layoutInv p ps \<and> ps \<noteq> []
      \<and> computeBounds ps = Some b
      \<and> Pack srt xOrder yOrder p
          = Some ((maxX b - minX b, maxY b - minY b),
                  map (\<lambda>pl. (position pl, x pl - minX b, y pl - minY b)) ps)"
proof -
  from layout_Some [OF assms(1), of xOrder yOrder p]
  obtain ps where l: "layout srt xOrder yOrder p = Some ps"
    and m: "map position ps = sortedPositions srt p" and inv: "layoutInv p ps"
    by blast
  have "sortedPositions srt p \<noteq> []"
    using sortedPositions_set [OF assms(1), of p] assms(2) by (auto simp: Len_def)
  then have pne: "ps \<noteq> []" using m by auto
  then obtain b where b: "computeBounds ps = Some b"
    using computeBounds_Some by blast
  show ?thesis
    using l m inv pne b assms(2) by (simp add: Pack_def)
qed

lemma recorded_placement:
  assumes "layoutInv p ps" "q \<in> set ps"
  shows "recorded p (position q, x q, y q) = q"
  using assms by (simp add: recorded_def layoutInv_def)

lemma sint_zero_between: fixes a :: gint
  assumes "a \<le>s 0" "0 \<le> sint a" shows "a = 0"
proof -
  from assms have "sint a = 0" by (simp add: word_sle_eq)
  then show ?thesis by (simp add: signed_eq_0_iff)
qed

lemma Pack_fits:
  assumes "sortSlice_ok srt" "rangeOrder_ok xOrder" "rangeOrder_ok yOrder" "fits p" "Len p \<noteq> 0"
  shows "\<exists>ps b. layout srt xOrder yOrder p = Some ps
      \<and> map position ps = sortedPositions srt p \<and> layoutInv p ps \<and> ps \<noteq> []
      \<and> inBox (sum_list (map (\<lambda>r. sint (Width r)) p)) (sum_list (map (\<lambda>r. sint (Height r)) p)) ps
      \<and> computeBounds ps = Some b \<and> minX b = 0 \<and> minY b = 0
      \<and> Pack srt xOrder yOrder p
          = Some ((maxX b, maxY b), map (\<lambda>pl. (position pl, x pl, y pl)) ps)"
proof -
  from Pack_Some [OF assms(1,5), of xOrder yOrder]
  obtain ps b where l: "layout srt xOrder yOrder p = Some ps"
    and m: "map position ps = sortedPositions srt p" and inv: "layoutInv p ps" and pne: "ps \<noteq> []"
    and b: "computeBounds ps = Some b"
    and P: "Pack srt xOrder yOrder p
          = Some ((maxX b - minX b, maxY b - minY b),
                  map (\<lambda>pl. (position pl, x pl - minX b, y pl - minY b)) ps)"
    by blast
  have box: "inBox (sum_list (map (\<lambda>r. sint (Width r)) p)) (sum_list (map (\<lambda>r. sint (Height r)) p)) ps"
    by (rule layout_inBox [OF assms(1-4) l])
  have hd: "hd ps \<in> set ps" "x (hd ps) = 0" "y (hd ps) = 0"
    using pne inv by (simp_all add: layoutInv_def)
  have "minX b \<le>s 0" "minY b \<le>s 0"
    using computeBounds_lower(1,2) [OF b hd(1)] hd(2,3) by simp_all
  moreover have "0 \<le> sint (minX b)" "0 \<le> sint (minY b)"
    using computeBounds_attained(1,2) [OF b] box by (auto simp: inBox_def)
  ultimately have z: "minX b = 0" "minY b = 0"
    by (simp_all add: sint_zero_between)
  show ?thesis
    using l m inv pne box b z P by simp
qed

lemma sorted_wrt_distinct_pair:
  assumes "sorted_wrt P ps" "a \<in> set ps" "b \<in> set ps" "a \<noteq> b"
  shows "P a b \<or> P b a"
proof -
  from assms(2,3) obtain i j where i: "i < length ps" "ps ! i = a" and j: "j < length ps" "ps ! j = b"
    by (auto simp: in_set_conv_nth)
  with assms(4) have "i \<noteq> j" by auto
  then have "i < j \<or> j < i" by auto
  then show ?thesis
    using assms(1) i j by (auto simp: sorted_wrt_iff_nth_less)
qed

lemma free_no_intervalsOverlap:
  assumes "sint (x a + width a) = sint (x a) + sint (width a)"
    "sint (y a + height a) = sint (y a) + sint (height a)"
    "sint (x b + width b) = sint (x b) + sint (width b)"
    "sint (y b + height b) = sint (y b) + sint (height b)"
    and "\<not> doRectanglesIntersect a b"
  shows "\<not> intervalsOverlap a b"
  using assms(5) unfolding doRectanglesIntersect_def intervalsOverlap_def xInterval_def yInterval_def
    ivl_inter word_sle_eq assms(1-4)
  by (auto split: if_splits)

section \<open>A run in which coordinates overflow\<close>

lemma packLoop_compose:
  assumes "packLoop xOrder yOrder p ps [pos] = Some ps'"
  shows "packLoop xOrder yOrder p ps (pos # rest) = packLoop xOrder yOrder p ps' rest"
  using assms
  by (auto simp: Let_def split: option.splits if_splits prod.splits)

lemma overflow_sorted: "sortedPositions insertionSort overflowInput = [3, 0, 1, 2]"
  by code_simp

lemma overflow_turn1:
  "packLoop firstOrder firstOrder overflowInput [] [3]
     = Some [\<lparr>position = 3, x = 0, y = 0, width = 4611686018427387905, height = 1\<rparr>]"
  by code_simp

lemma overflow_turn2:
  "packLoop firstOrder firstOrder overflowInput
       [\<lparr>position = 3, x = 0, y = 0, width = 4611686018427387905, height = 1\<rparr>] [0]
     = Some [\<lparr>position = 3, x = 0, y = 0, width = 4611686018427387905, height = 1\<rparr>,
             \<lparr>position = 0, x = 4611686018427387905, y = 0, width = 4611686018427387904, height = 2\<rparr>]"
  by code_simp

lemma overflow_turn3:
  "packLoop firstOrder firstOrder overflowInput
       [\<lparr>position = 3, x = 0, y = 0, width = 4611686018427387905, height = 1\<rparr>,
        \<lparr>position = 0, x = 4611686018427387905, y = 0, width = 4611686018427387904, height = 2\<rparr>] [1]
     = Some [\<lparr>position = 3, x = 0, y = 0, width = 4611686018427387905, height = 1\<rparr>,
             \<lparr>position = 0, x = 4611686018427387905, y = 0, width = 4611686018427387904, height = 2\<rparr>,
             \<lparr>position = 1, x = - 9223372036854775807, y = 0, width = 4611686018427387904, height = 2\<rparr>]"
  by code_simp

lemma overflow_turn4:
  "packLoop firstOrder firstOrder overflowInput
       [\<lparr>position = 3, x = 0, y = 0, width = 4611686018427387905, height = 1\<rparr>,
        \<lparr>position = 0, x = 4611686018427387905, y = 0, width = 4611686018427387904, height = 2\<rparr>,
        \<lparr>position = 1, x = - 9223372036854775807, y = 0, width = 4611686018427387904, height = 2\<rparr>] [2]
     = Some [\<lparr>position = 3, x = 0, y = 0, width = 4611686018427387905, height = 1\<rparr>,
             \<lparr>position = 0, x = 4611686018427387905, y = 0, width = 4611686018427387904, height = 2\<rparr>,
             \<lparr>position = 1, x = - 9223372036854775807, y = 0, width = 4611686018427387904, height = 2\<rparr>,
             \<lparr>position = 2, x = 4611686018427387905, y = 0, width = 4611686018427387904, height = 2\<rparr>]"
  by code_simp

lemma overflow_layout:
  "layout insertionSort firstOrder firstOrder overflowInput
     = Some [\<lparr>position = 3, x = 0, y = 0, width = 4611686018427387905, height = 1\<rparr>,
             \<lparr>position = 0, x = 4611686018427387905, y = 0, width = 4611686018427387904, height = 2\<rparr>,
             \<lparr>position = 1, x = - 9223372036854775807, y = 0, width = 4611686018427387904, height = 2\<rparr>,
             \<lparr>position = 2, x = 4611686018427387905, y = 0, width = 4611686018427387904, height = 2\<rparr>]"
  unfolding layout_def overflow_sorted
  by (simp only: packLoop_compose [OF overflow_turn1] packLoop_compose [OF overflow_turn2]
        packLoop_compose [OF overflow_turn3] overflow_turn4)

lemma overflow_bounds:
  "computeBounds
       [\<lparr>position = 3, x = 0, y = 0, width = 4611686018427387905, height = 1\<rparr>,
        \<lparr>position = 0, x = 4611686018427387905, y = 0, width = 4611686018427387904, height = 2\<rparr>,
        \<lparr>position = 1, x = - 9223372036854775807, y = 0, width = 4611686018427387904, height = 2\<rparr>,
        \<lparr>position = 2, x = 4611686018427387905, y = 0, width = 4611686018427387904, height = 2\<rparr>]
     = Some \<lparr>minX = - 9223372036854775807, minY = 0, maxX = 4611686018427387905, maxY = 2\<rparr>"
  by code_simp

lemma overflow_Pack:
  "Pack insertionSort firstOrder firstOrder overflowInput
     = Some ((- 4611686018427387904, 2),
         [(3, 9223372036854775807, 0), (0, - 4611686018427387904, 0), (1, 0, 0),
          (2, - 4611686018427387904, 0)])"
  unfolding Pack_def Let_def overflow_layout option.case overflow_bounds
  by (simp add: Len_def overflowInput_def)

lemma fits_smallInput: "fits smallInput"
  by (simp add: fits_def smallInput_def word_sle_eq)

lemma Len_smallInput: "Len smallInput \<noteq> 0"
  by (simp add: Len_def smallInput_def)

section \<open>Runs without ties\<close>

lemma better_irrefl: "\<not> better s s"
  by (simp add: better_def)

lemma better_asym: "better s t \<Longrightarrow> \<not> better t s"
  by (auto simp: better_def word_sless_alt)

lemma better_total: "\<not> better s t \<Longrightarrow> \<not> better t s \<Longrightarrow> s = t"
  by (cases s; cases t) (auto simp: better_def word_sless_alt dest: signed_word_eqI)

lemma findBestPlacement_min:
  assumes "survivingCandidates xs ys r ps \<noteq> []"
  shows "\<exists>cx cy. findBestPlacement xs ys b r ps = (cx, cy, True)
      \<and> (cx, cy) \<in> set (survivingCandidates xs ys r ps)
      \<and> (\<forall>d \<in> set (survivingCandidates xs ys r ps). \<not> better (scoreAt b r d) (scoreAt b r (cx, cy)))"
proof -
  from findBestPlacement_some [OF assms, of b]
  obtain cx cy pre post where f: "findBestPlacement xs ys b r ps = (cx, cy, True)"
    and sv: "survivingCandidates xs ys r ps = pre @ (cx, cy) # post"
    and pre: "\<forall>c \<in> set pre. better (scoreAt b r (cx, cy)) (scoreAt b r c)"
    and post: "\<forall>c \<in> set post. \<not> better (scoreAt b r c) (scoreAt b r (cx, cy))"
    by blast
  have "\<forall>d \<in> set (survivingCandidates xs ys r ps). \<not> better (scoreAt b r d) (scoreAt b r (cx, cy))"
  proof
    fix d assume "d \<in> set (survivingCandidates xs ys r ps)"
    then have "d \<in> set pre \<or> d = (cx, cy) \<or> d \<in> set post"
      unfolding sv by auto
    then show "\<not> better (scoreAt b r d) (scoreAt b r (cx, cy))"
      using pre post better_asym [of "scoreAt b r (cx, cy)" "scoreAt b r d"]
        better_irrefl [of "scoreAt b r (cx, cy)"] by blast
  qed
  with f sv show ?thesis by auto
qed

lemma squares_first:
  "Pack insertionSort firstOrder firstOrder squaresInput = Some ((2, 4), [(0, 0, 0), (1, 0, 2)])"
  by code_simp

lemma squares_last:
  "Pack insertionSort lastOrder firstOrder squaresInput = Some ((4, 2), [(0, 0, 0), (1, 2, 0)])"
  by code_simp

section \<open>The sort on areas that fit\<close>

lemma sint_Area:
  assumes "areaFits p" "r \<in> set p"
  shows "sint (Area r) = trueArea r"
  using assms by (simp add: areaFits_def Area_def trueArea_def sint_mult_no_overflow)

lemma sortedPositions_sorted_trueArea:
  assumes "sortSlice_ok srt" "areaFits p"
  shows "sorted_wrt (\<lambda>a b. trueArea (p ! b) \<le> trueArea (p ! a)) (sortedPositions srt p)"
proof -
  have s: "sorted_wrt (\<lambda>a b. Area (p ! b) \<le>s Area (p ! a)) (sortedPositions srt p)"
    by (rule sortedPositions_sorted [OF assms(1)])
  have in_p: "\<And>i. i \<in> set (sortedPositions srt p) \<Longrightarrow> p ! i \<in> set p"
    using sortedPositions_set [OF assms(1), of p] by simp
  show ?thesis
    by (rule sorted_wrt_mono_rel [OF _ s])
       (simp add: word_sle_eq sint_Area [OF assms(2)] in_p)
qed

lemma areaFits_smallInput: "areaFits smallInput"
  by (simp add: areaFits_def smallInput_def trueArea_def)

lemma big_sorted: "sortedPositions insertionSort bigInput = [1, 0]"
  by code_simp

lemma big_Pack:
  "Pack insertionSort firstOrder firstOrder bigInput
     = Some ((4294967296, 4294967297), [(1, 0, 0), (0, 0, 1)])"
  by code_simp

lemma big_areas:
  "trueArea (bigInput ! 0) = 18446744073709551616" "trueArea (bigInput ! 1) = 1"
  "Area (bigInput ! 0) = 0" "Area (bigInput ! 1) = 1"
  by (simp_all add: bigInput_def trueArea_def Area_def)

lemma fits_bigInput: "fits bigInput"
  by (simp add: fits_def bigInput_def word_sle_eq)

section \<open>Runs without a tie for the best score\<close>

lemma findBestPlacement_isBest:
  assumes "survivingCandidates xs ys r ps \<noteq> []"
  shows "\<exists>cx cy. findBestPlacement xs ys b r ps = (cx, cy, True)
      \<and> (cx, cy) \<in> set (survivingCandidates xs ys r ps)
      \<and> isBest b r (survivingCandidates xs ys r ps) (cx, cy)"
  using findBestPlacement_min [OF assms, of b] by (simp add: isBest_def)

lemma isBest_cong: "set cs' = set cs \<Longrightarrow> isBest b r cs' c = isBest b r cs c"
  by (simp add: isBest_def)

lemma findBestPlacement_order_free:
  assumes "set xs' = set xs" "set ys' = set ys"
    and "uniqueBest b r (survivingCandidates xs ys r ps)"
  shows "findBestPlacement xs' ys' b r ps = findBestPlacement xs ys b r ps"
proof (cases "survivingCandidates xs ys r ps = []")
  case True
  then have "set (survivingCandidates xs ys r ps) = {}" by simp
  then have "set (survivingCandidates xs' ys' r ps) = {}"
    unfolding set_survivingCandidates assms(1,2) .
  then have "survivingCandidates xs' ys' r ps = []" by simp
  with True show ?thesis by (simp add: findBestPlacement_none)
next
  case False
  have s: "set (survivingCandidates xs' ys' r ps) = set (survivingCandidates xs ys r ps)"
    using assms(1,2) by (simp add: set_survivingCandidates)
  with False have ne': "survivingCandidates xs' ys' r ps \<noteq> []" by auto
  from findBestPlacement_isBest [OF False, of b]
  obtain cx cy where f: "findBestPlacement xs ys b r ps = (cx, cy, True)"
    and m: "(cx, cy) \<in> set (survivingCandidates xs ys r ps)"
    and least: "isBest b r (survivingCandidates xs ys r ps) (cx, cy)"
    by blast
  from findBestPlacement_isBest [OF ne', of b]
  obtain cx' cy' where f': "findBestPlacement xs' ys' b r ps = (cx', cy', True)"
    and m': "(cx', cy') \<in> set (survivingCandidates xs ys r ps)"
    and least': "isBest b r (survivingCandidates xs ys r ps) (cx', cy')"
    unfolding s isBest_cong [OF s] by blast
  have "(cx, cy) = (cx', cy')"
    using assms(3) m m' least least' unfolding uniqueBest_def by blast
  with f f' show ?thesis by simp
qed

lemma packLoop_order_free:
  assumes "rangeOrder_ok xOrder" "rangeOrder_ok yOrder" "rangeOrder_ok xOrder'" "rangeOrder_ok yOrder'"
    and "noTieForBest xOrder yOrder p ps rest"
  shows "packLoop xOrder' yOrder' p ps rest = packLoop xOrder yOrder p ps rest"
  using assms(5)
proof (induction rest arbitrary: ps)
  case Nil
  show ?case by simp
next
  case (Cons pos rest)
  from Cons.prems obtain ps' where one: "packLoop xOrder yOrder p ps [pos] = Some ps'"
    and t: "ps = [] \<or> (case computeBounds ps of None \<Rightarrow> False
               | Some b \<Rightarrow> uniqueBest b (p ! pos)
                     (survivingCandidates (xOrder (xKeys ps)) (yOrder (yKeys ps)) (p ! pos) ps))"
    and rest: "noTieForBest xOrder yOrder p ps' rest"
    by (auto split: option.splits)
  have s: "set (xOrder' (xKeys ps)) = set (xOrder (xKeys ps))"
    "set (yOrder' (yKeys ps)) = set (yOrder (yKeys ps))"
    using assms(1-4) by (simp_all add: rangeOrder_ok_def)
  have one': "packLoop xOrder' yOrder' p ps [pos] = Some ps'"
  proof (cases "ps = []")
    case True
    with one show ?thesis by (simp split: option.splits)
  next
    case False
    with t obtain b where b: "computeBounds ps = Some b"
      and d: "uniqueBest b (p ! pos)
                     (survivingCandidates (xOrder (xKeys ps)) (yOrder (yKeys ps)) (p ! pos) ps)"
      by (auto split: option.splits)
    have "findBestPlacement (xOrder' (xKeys ps)) (yOrder' (yKeys ps)) b (p ! pos) ps
        = findBestPlacement (xOrder (xKeys ps)) (yOrder (yKeys ps)) b (p ! pos) ps"
      by (rule findBestPlacement_order_free [OF s d])
    with one False b show ?thesis
      by (simp add: getCandidatePositions_def placeRectangle_def RectangleAt_def split: option.splits if_splits)
  qed
  show ?case
    unfolding packLoop_compose [OF one] packLoop_compose [OF one']
    by (rule Cons.IH [OF rest])
qed

lemma strictBest_uniqueBest:
  assumes "c0 \<in> set cs"
    and "list_all (\<lambda>c. c = c0 \<or> better (scoreAt b r c0) (scoreAt b r c)) cs"
  shows "uniqueBest b r cs"
proof -
  have s: "\<And>c. c \<in> set cs \<Longrightarrow> c \<noteq> c0 \<Longrightarrow> better (scoreAt b r c0) (scoreAt b r c)"
    using assms(2) by (auto simp: list_all_iff)
  have "\<And>c. c \<in> set cs \<Longrightarrow> isBest b r cs c \<Longrightarrow> c = c0"
  proof (rule ccontr)
    fix c assume c: "c \<in> set cs" "isBest b r cs c" "c \<noteq> c0"
    then have "better (scoreAt b r c0) (scoreAt b r c)" using s by blast
    with c(2) assms(1) show False by (auto simp: isBest_def)
  qed
  then show ?thesis unfolding uniqueBest_def by blast
qed

lemma noTieForBest_first:
  assumes "packLoop xOrder yOrder p [] [pos] = Some ps'"
    and "noTieForBest xOrder yOrder p ps' rest"
  shows "noTieForBest xOrder yOrder p [] (pos # rest)"
  using assms by simp

lemma noTieForBest_turn:
  assumes "packLoop xOrder yOrder p ps [pos] = Some ps'"
    and "computeBounds ps = Some b"
    and "survivingCandidates (xOrder (xKeys ps)) (yOrder (yKeys ps)) (p ! pos) ps = cs"
    and "c0 \<in> set cs"
    and "list_all (\<lambda>c. c = c0 \<or> better (scoreAt b (p ! pos) c0) (scoreAt b (p ! pos) c)) cs"
    and "noTieForBest xOrder yOrder p ps' rest"
  shows "noTieForBest xOrder yOrder p ps (pos # rest)"
  using assms(1,2,6) strictBest_uniqueBest [OF assms(4,5)] assms(3) by simp

lemma test_sorted: "sortedPositions insertionSort testInput = [0, 2, 4, 1, 3]"
  by code_simp

lemma test_turn1:
  "packLoop firstOrder firstOrder testInput
     [] [0]
   = Some
     [\<lparr>position = 0, x = 0, y = 0, width = 100, height = 200\<rparr>]"
  by code_simp

lemma test_turn2:
  "packLoop firstOrder firstOrder testInput
     [\<lparr>position = 0, x = 0, y = 0, width = 100, height = 200\<rparr>] [2]
   = Some
     [\<lparr>position = 0, x = 0, y = 0, width = 100, height = 200\<rparr>,
      \<lparr>position = 2, x = 0, y = 200, width = 80, height = 120\<rparr>]"
  by code_simp

lemma test_turn3:
  "packLoop firstOrder firstOrder testInput
     [\<lparr>position = 0, x = 0, y = 0, width = 100, height = 200\<rparr>,
      \<lparr>position = 2, x = 0, y = 200, width = 80, height = 120\<rparr>] [4]
   = Some
     [\<lparr>position = 0, x = 0, y = 0, width = 100, height = 200\<rparr>,
      \<lparr>position = 2, x = 0, y = 200, width = 80, height = 120\<rparr>,
      \<lparr>position = 4, x = 0, y = 320, width = 70, height = 70\<rparr>]"
  by code_simp

lemma test_turn4:
  "packLoop firstOrder firstOrder testInput
     [\<lparr>position = 0, x = 0, y = 0, width = 100, height = 200\<rparr>,
      \<lparr>position = 2, x = 0, y = 200, width = 80, height = 120\<rparr>,
      \<lparr>position = 4, x = 0, y = 320, width = 70, height = 70\<rparr>] [1]
   = Some
     [\<lparr>position = 0, x = 0, y = 0, width = 100, height = 200\<rparr>,
      \<lparr>position = 2, x = 0, y = 200, width = 80, height = 120\<rparr>,
      \<lparr>position = 4, x = 0, y = 320, width = 70, height = 70\<rparr>,
      \<lparr>position = 1, x = 0, y = 390, width = 50, height = 50\<rparr>]"
  by code_simp

lemma test_turn5:
  "packLoop firstOrder firstOrder testInput
     [\<lparr>position = 0, x = 0, y = 0, width = 100, height = 200\<rparr>,
      \<lparr>position = 2, x = 0, y = 200, width = 80, height = 120\<rparr>,
      \<lparr>position = 4, x = 0, y = 320, width = 70, height = 70\<rparr>,
      \<lparr>position = 1, x = 0, y = 390, width = 50, height = 50\<rparr>] [3]
   = Some
     [\<lparr>position = 0, x = 0, y = 0, width = 100, height = 200\<rparr>,
      \<lparr>position = 2, x = 0, y = 200, width = 80, height = 120\<rparr>,
      \<lparr>position = 4, x = 0, y = 320, width = 70, height = 70\<rparr>,
      \<lparr>position = 1, x = 0, y = 390, width = 50, height = 50\<rparr>,
      \<lparr>position = 3, x = 70, y = 320, width = 30, height = 60\<rparr>]"
  by code_simp

lemma test_bounds2:
  "computeBounds
     [\<lparr>position = 0, x = 0, y = 0, width = 100, height = 200\<rparr>]
   = Some \<lparr>minX = 0, minY = 0, maxX = 100, maxY = 200\<rparr>"
  by code_simp

lemma test_candidates2:
  "survivingCandidates
     (firstOrder (xKeys
     [\<lparr>position = 0, x = 0, y = 0, width = 100, height = 200\<rparr>]))
     (firstOrder (yKeys
     [\<lparr>position = 0, x = 0, y = 0, width = 100, height = 200\<rparr>]))
     (testInput ! 2)
     [\<lparr>position = 0, x = 0, y = 0, width = 100, height = 200\<rparr>]
   = [(0, 200), (100, 0), (100, 200)]"
  by code_simp

lemma test_best2:
  "list_all (\<lambda>c. c = (0, 200)
       \<or> better (scoreAt \<lparr>minX = 0, minY = 0, maxX = 100, maxY = 200\<rparr> (testInput ! 2) (0, 200))
            (scoreAt \<lparr>minX = 0, minY = 0, maxX = 100, maxY = 200\<rparr> (testInput ! 2) c))
     [(0, 200), (100, 0), (100, 200)]"
  by code_simp

lemma test_bounds3:
  "computeBounds
     [\<lparr>position = 0, x = 0, y = 0, width = 100, height = 200\<rparr>,
      \<lparr>position = 2, x = 0, y = 200, width = 80, height = 120\<rparr>]
   = Some \<lparr>minX = 0, minY = 0, maxX = 100, maxY = 320\<rparr>"
  by code_simp

lemma test_candidates3:
  "survivingCandidates
     (firstOrder (xKeys
     [\<lparr>position = 0, x = 0, y = 0, width = 100, height = 200\<rparr>,
      \<lparr>position = 2, x = 0, y = 200, width = 80, height = 120\<rparr>]))
     (firstOrder (yKeys
     [\<lparr>position = 0, x = 0, y = 0, width = 100, height = 200\<rparr>,
      \<lparr>position = 2, x = 0, y = 200, width = 80, height = 120\<rparr>]))
     (testInput ! 4)
     [\<lparr>position = 0, x = 0, y = 0, width = 100, height = 200\<rparr>,
      \<lparr>position = 2, x = 0, y = 200, width = 80, height = 120\<rparr>]
   = [(0, 320), (100, 0), (100, 200), (100, 320), (80, 200), (80, 320)]"
  by code_simp

lemma test_best3:
  "list_all (\<lambda>c. c = (0, 320)
       \<or> better (scoreAt \<lparr>minX = 0, minY = 0, maxX = 100, maxY = 320\<rparr> (testInput ! 4) (0, 320))
            (scoreAt \<lparr>minX = 0, minY = 0, maxX = 100, maxY = 320\<rparr> (testInput ! 4) c))
     [(0, 320), (100, 0), (100, 200), (100, 320), (80, 200), (80, 320)]"
  by code_simp

lemma test_bounds4:
  "computeBounds
     [\<lparr>position = 0, x = 0, y = 0, width = 100, height = 200\<rparr>,
      \<lparr>position = 2, x = 0, y = 200, width = 80, height = 120\<rparr>,
      \<lparr>position = 4, x = 0, y = 320, width = 70, height = 70\<rparr>]
   = Some \<lparr>minX = 0, minY = 0, maxX = 100, maxY = 390\<rparr>"
  by code_simp

lemma test_candidates4:
  "survivingCandidates
     (firstOrder (xKeys
     [\<lparr>position = 0, x = 0, y = 0, width = 100, height = 200\<rparr>,
      \<lparr>position = 2, x = 0, y = 200, width = 80, height = 120\<rparr>,
      \<lparr>position = 4, x = 0, y = 320, width = 70, height = 70\<rparr>]))
     (firstOrder (yKeys
     [\<lparr>position = 0, x = 0, y = 0, width = 100, height = 200\<rparr>,
      \<lparr>position = 2, x = 0, y = 200, width = 80, height = 120\<rparr>,
      \<lparr>position = 4, x = 0, y = 320, width = 70, height = 70\<rparr>]))
     (testInput ! 1)
     [\<lparr>position = 0, x = 0, y = 0, width = 100, height = 200\<rparr>,
      \<lparr>position = 2, x = 0, y = 200, width = 80, height = 120\<rparr>,
      \<lparr>position = 4, x = 0, y = 320, width = 70, height = 70\<rparr>]
   = [(0, 390), (100, 0), (100, 200), (100, 320), (100, 390), (80, 200), (80, 320), (80, 390), (70, 320), (70, 390)]"
  by code_simp

lemma test_best4:
  "list_all (\<lambda>c. c = (0, 390)
       \<or> better (scoreAt \<lparr>minX = 0, minY = 0, maxX = 100, maxY = 390\<rparr> (testInput ! 1) (0, 390))
            (scoreAt \<lparr>minX = 0, minY = 0, maxX = 100, maxY = 390\<rparr> (testInput ! 1) c))
     [(0, 390), (100, 0), (100, 200), (100, 320), (100, 390), (80, 200), (80, 320), (80, 390), (70, 320), (70, 390)]"
  by code_simp

lemma test_bounds5:
  "computeBounds
     [\<lparr>position = 0, x = 0, y = 0, width = 100, height = 200\<rparr>,
      \<lparr>position = 2, x = 0, y = 200, width = 80, height = 120\<rparr>,
      \<lparr>position = 4, x = 0, y = 320, width = 70, height = 70\<rparr>,
      \<lparr>position = 1, x = 0, y = 390, width = 50, height = 50\<rparr>]
   = Some \<lparr>minX = 0, minY = 0, maxX = 100, maxY = 440\<rparr>"
  by code_simp

lemma test_candidates5:
  "survivingCandidates
     (firstOrder (xKeys
     [\<lparr>position = 0, x = 0, y = 0, width = 100, height = 200\<rparr>,
      \<lparr>position = 2, x = 0, y = 200, width = 80, height = 120\<rparr>,
      \<lparr>position = 4, x = 0, y = 320, width = 70, height = 70\<rparr>,
      \<lparr>position = 1, x = 0, y = 390, width = 50, height = 50\<rparr>]))
     (firstOrder (yKeys
     [\<lparr>position = 0, x = 0, y = 0, width = 100, height = 200\<rparr>,
      \<lparr>position = 2, x = 0, y = 200, width = 80, height = 120\<rparr>,
      \<lparr>position = 4, x = 0, y = 320, width = 70, height = 70\<rparr>,
      \<lparr>position = 1, x = 0, y = 390, width = 50, height = 50\<rparr>]))
     (testInput ! 3)
     [\<lparr>position = 0, x = 0, y = 0, width = 100, height = 200\<rparr>,
      \<lparr>position = 2, x = 0, y = 200, width = 80, height = 120\<rparr>,
      \<lparr>position = 4, x = 0, y = 320, width = 70, height = 70\<rparr>,
      \<lparr>position = 1, x = 0, y = 390, width = 50, height = 50\<rparr>]
   = [(0, 440), (100, 0), (100, 200), (100, 320), (100, 390), (100, 440), (80, 200), (80, 320), (80, 390), (80, 440), (70, 320), (70, 390), (70, 440), (50, 390), (50, 440)]"
  by code_simp

lemma test_best5:
  "list_all (\<lambda>c. c = (70, 320)
       \<or> better (scoreAt \<lparr>minX = 0, minY = 0, maxX = 100, maxY = 440\<rparr> (testInput ! 3) (70, 320))
            (scoreAt \<lparr>minX = 0, minY = 0, maxX = 100, maxY = 440\<rparr> (testInput ! 3) c))
     [(0, 440), (100, 0), (100, 200), (100, 320), (100, 390), (100, 440), (80, 200), (80, 320), (80, 390), (80, 440), (70, 320), (70, 390), (70, 440), (50, 390), (50, 440)]"
  by code_simp

lemma noTieForBest_testInput:
  "noTieForBest firstOrder firstOrder testInput [] (sortedPositions insertionSort testInput)"
  unfolding test_sorted
  apply (rule noTieForBest_first [OF test_turn1])
  apply (rule noTieForBest_turn [OF test_turn2 test_bounds2 test_candidates2 _ test_best2], simp)
  apply (rule noTieForBest_turn [OF test_turn3 test_bounds3 test_candidates3 _ test_best3], simp)
  apply (rule noTieForBest_turn [OF test_turn4 test_bounds4 test_candidates4 _ test_best4], simp)
  apply (rule noTieForBest_turn [OF test_turn5 test_bounds5 test_candidates5 _ test_best5], simp)
  apply simp
  done

section \<open>The turns of a finished run\<close>










section \<open>Scores read on integers\<close>






















section \<open>The claims about Pack\<close>

text \<open>
  The repository's test of a single rectangle: the dimensions returned are its size and it
  is placed at the origin.
\<close>

lemma Pack_single_rectangle:
  "Pack insertionSort firstOrder firstOrder [\<lparr>Width = 100, Height = 200\<rparr>]
     = Some ((100, 200), [(0, 0, 0)])"
  by code_simp

text \<open>
  C4: when the collection is empty, \<open>Pack\<close> returns \<open>(0, 0)\<close> and never calls
  \<open>Place\<close>.
\<close>

theorem Pack_empty:
  "Len p = 0 \<Longrightarrow> Pack srt xOrder yOrder p = Some ((0, 0), [])"
  by (simp add: Pack_def)

theorem Pack_empty_witness:
  "Len [] = 0 \<and> Pack insertionSort firstOrder firstOrder [] = Some ((0, 0), [])"
  using Pack_empty [of "[]" insertionSort firstOrder firstOrder] by (simp add: Len_def)

text \<open>
  C1 as stated fails where coordinates overflow. The four rectangles of
  \<open>overflowInput\<close> have non-negative sizes; \<open>Pack\<close> records rectangles 0 and 2 at
  the same position, and they overlap, by \<open>doRectanglesIntersect\<close> and as intervals.
\<close>

theorem Pack_no_overlap_counterexample:
  "sortSlice_ok insertionSort \<and> rangeOrder_ok firstOrder
   \<and> list_all (\<lambda>r. 0 \<le>s Width r \<and> 0 \<le>s Height r) overflowInput
   \<and> Pack insertionSort firstOrder firstOrder overflowInput
     = Some ((- 4611686018427387904, 2),
         [(3, 9223372036854775807, 0), (0, - 4611686018427387904, 0), (1, 0, 0),
          (2, - 4611686018427387904, 0)])
   \<and> doRectanglesIntersect (recorded overflowInput (0, - 4611686018427387904, 0))
         (recorded overflowInput (2, - 4611686018427387904, 0))
   \<and> intervalsOverlap (recorded overflowInput (0, - 4611686018427387904, 0))
         (recorded overflowInput (2, - 4611686018427387904, 0))"
proof -
  have "list_all (\<lambda>r. 0 \<le>s Width r \<and> 0 \<le>s Height r) overflowInput"
    by (simp add: overflowInput_def word_sle_eq)
  moreover have "doRectanglesIntersect (recorded overflowInput (0, - 4611686018427387904, 0))
         (recorded overflowInput (2, - 4611686018427387904, 0))"
    by (simp add: doRectanglesIntersect_def recorded_def overflowInput_def word_sle_eq)
  moreover have "intervalsOverlap (recorded overflowInput (0, - 4611686018427387904, 0))
         (recorded overflowInput (2, - 4611686018427387904, 0))"
    by (simp add: intervalsOverlap_def xInterval_def yInterval_def recorded_def overflowInput_def)
  ultimately show ?thesis
    using sortSlice_ok_insertionSort rangeOrder_ok_firstOrder overflow_Pack by simp
qed

text \<open>
  C1, amended: for every collection of rectangles with non-negative sizes whose widths add
  up to less than \<open>2 ^ 63\<close> and whose heights add up to less than \<open>2 ^ 63\<close>, after
  \<open>Pack\<close> returns every index has been recorded once, and the recorded rectangles of
  two distinct indices do not overlap: \<open>doRectanglesIntersect\<close> is false of them, and
  their half-open intervals do not both share a point.
\<close>

theorem Pack_no_overlap:
  assumes "sortSlice_ok srt" "rangeOrder_ok xOrder" "rangeOrder_ok yOrder" "fits p"
  shows "\<exists>dims calls. Pack srt xOrder yOrder p = Some (dims, calls)
     \<and> mset (map fst calls) = mset [0..<Len p]
     \<and> (\<forall>c \<in> set calls. \<forall>c' \<in> set calls. fst c \<noteq> fst c' \<longrightarrow>
           \<not> doRectanglesIntersect (recorded p c) (recorded p c')
         \<and> \<not> intervalsOverlap (recorded p c) (recorded p c'))"
proof (cases "Len p = 0")
  case True
  then show ?thesis by (simp add: Pack_def)
next
  case False
  let ?S = "sum_list (map (\<lambda>r. sint (Width r)) p)" and ?T = "sum_list (map (\<lambda>r. sint (Height r)) p)"
  from Pack_fits [OF assms False] obtain ps where "\<exists>b. layout srt xOrder yOrder p = Some ps
      \<and> map position ps = sortedPositions srt p \<and> layoutInv p ps \<and> ps \<noteq> []
      \<and> inBox ?S ?T ps
      \<and> computeBounds ps = Some b \<and> minX b = 0 \<and> minY b = 0
      \<and> Pack srt xOrder yOrder p
          = Some ((maxX b, maxY b), map (\<lambda>pl. (position pl, x pl, y pl)) ps)" ..
  then obtain b where H: "layout srt xOrder yOrder p = Some ps
      \<and> map position ps = sortedPositions srt p \<and> layoutInv p ps \<and> ps \<noteq> []
      \<and> inBox ?S ?T ps
      \<and> computeBounds ps = Some b \<and> minX b = 0 \<and> minY b = 0
      \<and> Pack srt xOrder yOrder p
          = Some ((maxX b, maxY b), map (\<lambda>pl. (position pl, x pl, y pl)) ps)" ..
  from H have m: "map position ps = sortedPositions srt p" and inv: "layoutInv p ps"
    and box: "inBox ?S ?T ps"
    and P: "Pack srt xOrder yOrder p
          = Some ((maxX b, maxY b), map (\<lambda>pl. (position pl, x pl, y pl)) ps)"
    by simp_all
  let ?calls = "map (\<lambda>pl. (position pl, x pl, y pl)) ps"
  have ST: "?S < 2 ^ 63" "?T < 2 ^ 63" using assms(4) by (simp_all add: fits_def)
  have idx: "mset (map fst ?calls) = mset [0..<Len p]"
    using sortedPositions_perm [OF assms(1), of p] m [symmetric] by (simp add: comp_def)
  have free: "\<forall>c \<in> set ?calls. \<forall>c' \<in> set ?calls. fst c \<noteq> fst c' \<longrightarrow>
           \<not> doRectanglesIntersect (recorded p c) (recorded p c')
         \<and> \<not> intervalsOverlap (recorded p c) (recorded p c')"
  proof (intro ballI impI)
    fix c c' assume c: "c \<in> set ?calls" and c': "c' \<in> set ?calls" and ne: "fst c \<noteq> fst c'"
    from c obtain q where q: "q \<in> set ps" "c = (position q, x q, y q)" by auto
    from c' obtain q' where q': "q' \<in> set ps" "c' = (position q', x q', y q')" by auto
    have r: "recorded p c = q" "recorded p c' = q'"
      using recorded_placement [OF inv] q q' by simp_all
    from ne q q' have "q \<noteq> q'" by auto
    with inv q(1) q'(1) have d: "\<not> doRectanglesIntersect q q'"
      using sorted_wrt_distinct_pair [of "\<lambda>a b. \<not> doRectanglesIntersect a b" ps q q']
      by (auto simp: layoutInv_def doRectanglesIntersect_sym)
    have "\<not> intervalsOverlap q q'"
      by (rule free_no_intervalsOverlap
            [OF inBox_edges [OF box ST q(1)] inBox_edges [OF box ST q'(1)] d])
    with d show "\<not> doRectanglesIntersect (recorded p c) (recorded p c')
         \<and> \<not> intervalsOverlap (recorded p c) (recorded p c')"
      unfolding r by simp
  qed
  from P idx free show ?thesis by blast
qed

theorem Pack_no_overlap_witness:
  "sortSlice_ok insertionSort \<and> rangeOrder_ok firstOrder \<and> rangeOrder_ok lastOrder
   \<and> fits smallInput
   \<and> (\<exists>dims calls. Pack insertionSort firstOrder lastOrder smallInput = Some (dims, calls)
     \<and> mset (map fst calls) = mset [0..<Len smallInput]
     \<and> (\<forall>c \<in> set calls. \<forall>c' \<in> set calls. fst c \<noteq> fst c' \<longrightarrow>
           \<not> doRectanglesIntersect (recorded smallInput c) (recorded smallInput c')
         \<and> \<not> intervalsOverlap (recorded smallInput c) (recorded smallInput c')))"
  using sortSlice_ok_insertionSort rangeOrder_ok_firstOrder rangeOrder_ok_lastOrder fits_smallInput
    Pack_no_overlap [OF sortSlice_ok_insertionSort rangeOrder_ok_firstOrder rangeOrder_ok_lastOrder
      fits_smallInput]
  by blast

text \<open>
  C2 as stated fails where coordinates overflow: on \<open>overflowInput\<close> the x-coordinate
  recorded for rectangle 0 is negative.
\<close>

theorem Pack_places_each_once_counterexample:
  "sortSlice_ok insertionSort \<and> rangeOrder_ok firstOrder
   \<and> Pack insertionSort firstOrder firstOrder overflowInput
     = Some ((- 4611686018427387904, 2),
         [(3, 9223372036854775807, 0), (0, - 4611686018427387904, 0), (1, 0, 0),
          (2, - 4611686018427387904, 0)])
   \<and> \<not> 0 \<le>s fst (snd (0 :: nat, - 4611686018427387904 :: gint, 0 :: gint))"
  using sortSlice_ok_insertionSort rangeOrder_ok_firstOrder overflow_Pack
  by (simp add: word_sle_eq)

text \<open>
  C2, amended: for every non-empty collection, \<open>Pack\<close> returns and has called
  \<open>Place\<close> exactly once for each index below the count; and when the sizes are
  non-negative and the widths, and the heights, add up to less than \<open>2 ^ 63\<close>, every
  recorded coordinate is at least zero.
\<close>

theorem Pack_places_each_once:
  assumes "sortSlice_ok srt" "rangeOrder_ok xOrder" "rangeOrder_ok yOrder" "Len p \<noteq> 0"
  shows "\<exists>dims calls. Pack srt xOrder yOrder p = Some (dims, calls)
     \<and> mset (map fst calls) = mset [0..<Len p]
     \<and> (fits p \<longrightarrow> (\<forall>c \<in> set calls. 0 \<le>s fst (snd c) \<and> 0 \<le>s snd (snd c)))"
proof (cases "fits p")
  case True
  let ?S = "sum_list (map (\<lambda>r. sint (Width r)) p)" and ?T = "sum_list (map (\<lambda>r. sint (Height r)) p)"
  from Pack_fits [OF assms(1-3) True assms(4)] obtain ps where "\<exists>b. layout srt xOrder yOrder p = Some ps
      \<and> map position ps = sortedPositions srt p \<and> layoutInv p ps \<and> ps \<noteq> []
      \<and> inBox ?S ?T ps
      \<and> computeBounds ps = Some b \<and> minX b = 0 \<and> minY b = 0
      \<and> Pack srt xOrder yOrder p
          = Some ((maxX b, maxY b), map (\<lambda>pl. (position pl, x pl, y pl)) ps)" ..
  then obtain b where H: "layout srt xOrder yOrder p = Some ps
      \<and> map position ps = sortedPositions srt p \<and> layoutInv p ps \<and> ps \<noteq> []
      \<and> inBox ?S ?T ps
      \<and> computeBounds ps = Some b \<and> minX b = 0 \<and> minY b = 0
      \<and> Pack srt xOrder yOrder p
          = Some ((maxX b, maxY b), map (\<lambda>pl. (position pl, x pl, y pl)) ps)" ..
  from H have m: "map position ps = sortedPositions srt p"
    and box: "inBox ?S ?T ps"
    and P: "Pack srt xOrder yOrder p
          = Some ((maxX b, maxY b), map (\<lambda>pl. (position pl, x pl, y pl)) ps)"
    by simp_all
  let ?calls = "map (\<lambda>pl. (position pl, x pl, y pl)) ps"
  have idx: "mset (map fst ?calls) = mset [0..<Len p]"
    using sortedPositions_perm [OF assms(1), of p] m [symmetric] by (simp add: comp_def)
  have "\<forall>c \<in> set ?calls. 0 \<le>s fst (snd c) \<and> 0 \<le>s snd (snd c)"
    using box by (auto simp: inBox_def word_sle_eq)
  with P idx show ?thesis by blast
next
  case False
  from Pack_Some [OF assms(1,4), of xOrder yOrder] obtain ps where "\<exists>b. layout srt xOrder yOrder p = Some ps
      \<and> map position ps = sortedPositions srt p \<and> layoutInv p ps \<and> ps \<noteq> []
      \<and> computeBounds ps = Some b
      \<and> Pack srt xOrder yOrder p
          = Some ((maxX b - minX b, maxY b - minY b),
                  map (\<lambda>pl. (position pl, x pl - minX b, y pl - minY b)) ps)" ..
  then obtain b where H: "layout srt xOrder yOrder p = Some ps
      \<and> map position ps = sortedPositions srt p \<and> layoutInv p ps \<and> ps \<noteq> []
      \<and> computeBounds ps = Some b
      \<and> Pack srt xOrder yOrder p
          = Some ((maxX b - minX b, maxY b - minY b),
                  map (\<lambda>pl. (position pl, x pl - minX b, y pl - minY b)) ps)" ..
  from H have m: "map position ps = sortedPositions srt p"
    and P: "Pack srt xOrder yOrder p
          = Some ((maxX b - minX b, maxY b - minY b),
                  map (\<lambda>pl. (position pl, x pl - minX b, y pl - minY b)) ps)"
    by simp_all
  have "mset (map fst (map (\<lambda>pl. (position pl, x pl - minX b, y pl - minY b)) ps)) = mset [0..<Len p]"
    using sortedPositions_perm [OF assms(1), of p] m [symmetric] by (simp add: comp_def)
  with P False show ?thesis by blast
qed

theorem Pack_places_each_once_witness:
  "sortSlice_ok insertionSort \<and> rangeOrder_ok firstOrder \<and> rangeOrder_ok lastOrder
   \<and> Len smallInput \<noteq> 0 \<and> fits smallInput
   \<and> (\<exists>dims calls. Pack insertionSort firstOrder lastOrder smallInput = Some (dims, calls)
     \<and> mset (map fst calls) = mset [0..<Len smallInput]
     \<and> (\<forall>c \<in> set calls. 0 \<le>s fst (snd c) \<and> 0 \<le>s snd (snd c)))"
  using sortSlice_ok_insertionSort rangeOrder_ok_firstOrder rangeOrder_ok_lastOrder fits_smallInput
    Len_smallInput
    Pack_places_each_once [OF sortSlice_ok_insertionSort rangeOrder_ok_firstOrder
      rangeOrder_ok_lastOrder Len_smallInput]
  by blast

text \<open>
  C3 as stated fails where coordinates overflow: on \<open>overflowInput\<close> the width returned
  is negative, the recorded rectangles span \<open>2 ^ 64\<close>, and the least recorded
  x-coordinate is not zero.
\<close>

theorem Pack_returns_bounding_box_counterexample:
  "sortSlice_ok insertionSort \<and> rangeOrder_ok firstOrder
   \<and> Pack insertionSort firstOrder firstOrder overflowInput
     = Some ((- 4611686018427387904, 2),
         [(3, 9223372036854775807, 0), (0, - 4611686018427387904, 0), (1, 0, 0),
          (2, - 4611686018427387904, 0)])
   \<and> Max ((\<lambda>c. sint (x (recorded overflowInput c)) + sint (width (recorded overflowInput c)))
           ` set [(3, 9223372036854775807, 0), (0, - 4611686018427387904, 0), (1, 0, 0),
                  (2, - 4611686018427387904, 0)])
       - Min ((\<lambda>c. sint (x (recorded overflowInput c)))
           ` set [(3, 9223372036854775807, 0), (0, - 4611686018427387904, 0), (1, 0, 0),
                  (2, - 4611686018427387904, 0)])
     = 18446744073709551616
   \<and> sint (- 4611686018427387904 :: gint) = - 4611686018427387904
   \<and> Min ((\<lambda>c. sint (x (recorded overflowInput c)))
           ` set [(3, 9223372036854775807, 0), (0, - 4611686018427387904, 0), (1, 0, 0),
                  (2, - 4611686018427387904, 0)])
     = - 4611686018427387904"
  using sortSlice_ok_insertionSort rangeOrder_ok_firstOrder overflow_Pack
  by (simp add: recorded_def overflowInput_def)

text \<open>
  C3, amended: for every non-empty collection of rectangles with non-negative sizes whose
  widths add up to less than \<open>2 ^ 63\<close> and whose heights add up to less than
  \<open>2 ^ 63\<close>, the pair that \<open>Pack\<close> returns is the tight bounding box of the recorded
  rectangles: the width is the greatest \<open>x + width\<close> minus the least \<open>x\<close>, the least
  \<open>x\<close> is zero, and the same holds of the height; \<open>computeBounds\<close> of the recorded
  rectangles gives the same box.
\<close>

theorem Pack_returns_bounding_box:
  assumes "sortSlice_ok srt" "rangeOrder_ok xOrder" "rangeOrder_ok yOrder" "fits p" "Len p \<noteq> 0"
  shows "\<exists>w h calls. Pack srt xOrder yOrder p = Some ((w, h), calls)
     \<and> sint w = Max ((\<lambda>c. sint (x (recorded p c)) + sint (width (recorded p c))) ` set calls)
                - Min ((\<lambda>c. sint (x (recorded p c))) ` set calls)
     \<and> Min ((\<lambda>c. sint (x (recorded p c))) ` set calls) = 0
     \<and> sint h = Max ((\<lambda>c. sint (y (recorded p c)) + sint (height (recorded p c))) ` set calls)
                - Min ((\<lambda>c. sint (y (recorded p c))) ` set calls)
     \<and> Min ((\<lambda>c. sint (y (recorded p c))) ` set calls) = 0
     \<and> computeBounds (map (recorded p) calls) = Some \<lparr>minX = 0, minY = 0, maxX = w, maxY = h\<rparr>"
proof -
  let ?S = "sum_list (map (\<lambda>r. sint (Width r)) p)" and ?T = "sum_list (map (\<lambda>r. sint (Height r)) p)"
  from Pack_fits [OF assms] obtain ps where "\<exists>b. layout srt xOrder yOrder p = Some ps
      \<and> map position ps = sortedPositions srt p \<and> layoutInv p ps \<and> ps \<noteq> []
      \<and> inBox ?S ?T ps
      \<and> computeBounds ps = Some b \<and> minX b = 0 \<and> minY b = 0
      \<and> Pack srt xOrder yOrder p
          = Some ((maxX b, maxY b), map (\<lambda>pl. (position pl, x pl, y pl)) ps)" ..
  then obtain b where H: "layout srt xOrder yOrder p = Some ps
      \<and> map position ps = sortedPositions srt p \<and> layoutInv p ps \<and> ps \<noteq> []
      \<and> inBox ?S ?T ps
      \<and> computeBounds ps = Some b \<and> minX b = 0 \<and> minY b = 0
      \<and> Pack srt xOrder yOrder p
          = Some ((maxX b, maxY b), map (\<lambda>pl. (position pl, x pl, y pl)) ps)" ..
  from H have inv: "layoutInv p ps" and pne: "ps \<noteq> []"
    and box: "inBox ?S ?T ps"
    and b: "computeBounds ps = Some b" and z: "minX b = 0" "minY b = 0"
    and P: "Pack srt xOrder yOrder p
          = Some ((maxX b, maxY b), map (\<lambda>pl. (position pl, x pl, y pl)) ps)"
    by simp_all
  let ?calls = "map (\<lambda>pl. (position pl, x pl, y pl)) ps"
  have ST: "?S < 2 ^ 63" "?T < 2 ^ 63" using assms(4) by (simp_all add: fits_def)
  have recs: "map (recorded p) ?calls = ps"
    using recorded_placement [OF inv] by (simp add: map_idI)
  have img: "(\<lambda>c. g (recorded p c)) ` set ?calls = g ` set ps" for g :: "placement \<Rightarrow> int"
  proof -
    have "(\<lambda>c. g (recorded p c)) ` set ?calls = g ` set (map (recorded p) ?calls)"
      by (simp only: set_map image_image)
    then show "(\<lambda>c. g (recorded p c)) ` set ?calls = g ` set ps"
      by (simp only: recs)
  qed
  have hd: "hd ps \<in> set ps" "x (hd ps) = 0" "y (hd ps) = 0"
    using pne inv by (simp_all add: layoutInv_def)
  have minx: "Min ((\<lambda>q. sint (x q)) ` set ps) = 0"
  proof (rule Min_eqI)
    show "finite ((\<lambda>q. sint (x q)) ` set ps)" by simp
    show "\<And>v. v \<in> (\<lambda>q. sint (x q)) ` set ps \<Longrightarrow> 0 \<le> v" using box by (auto simp: inBox_def)
    show "0 \<in> (\<lambda>q. sint (x q)) ` set ps" using hd(1,2) by force
  qed
  have miny: "Min ((\<lambda>q. sint (y q)) ` set ps) = 0"
  proof (rule Min_eqI)
    show "finite ((\<lambda>q. sint (y q)) ` set ps)" by simp
    show "\<And>v. v \<in> (\<lambda>q. sint (y q)) ` set ps \<Longrightarrow> 0 \<le> v" using box by (auto simp: inBox_def)
    show "0 \<in> (\<lambda>q. sint (y q)) ` set ps" using hd(1,3) by force
  qed
  have maxx: "Max ((\<lambda>q. sint (x q) + sint (width q)) ` set ps) = sint (maxX b)"
  proof (rule Max_eqI)
    show "finite ((\<lambda>q. sint (x q) + sint (width q)) ` set ps)" by simp
    show "\<And>v. v \<in> (\<lambda>q. sint (x q) + sint (width q)) ` set ps \<Longrightarrow> v \<le> sint (maxX b)"
      using computeBounds_lower(3) [OF b] inBox_edges(1) [OF box ST]
      by (auto simp: word_sle_eq)
    show "sint (maxX b) \<in> (\<lambda>q. sint (x q) + sint (width q)) ` set ps"
      using computeBounds_attained(3) [OF b] inBox_edges(1) [OF box ST] by force
  qed
  have maxy: "Max ((\<lambda>q. sint (y q) + sint (height q)) ` set ps) = sint (maxY b)"
  proof (rule Max_eqI)
    show "finite ((\<lambda>q. sint (y q) + sint (height q)) ` set ps)" by simp
    show "\<And>v. v \<in> (\<lambda>q. sint (y q) + sint (height q)) ` set ps \<Longrightarrow> v \<le> sint (maxY b)"
      using computeBounds_lower(4) [OF b] inBox_edges(2) [OF box ST]
      by (auto simp: word_sle_eq)
    show "sint (maxY b) \<in> (\<lambda>q. sint (y q) + sint (height q)) ` set ps"
      using computeBounds_attained(4) [OF b] inBox_edges(2) [OF box ST] by force
  qed
  have bb: "b = \<lparr>minX = 0, minY = 0, maxX = maxX b, maxY = maxY b\<rparr>"
    using z by (cases b) simp
  have cb: "computeBounds (map (recorded p) ?calls) = Some \<lparr>minX = 0, minY = 0, maxX = maxX b, maxY = maxY b\<rparr>"
    unfolding recs using b bb by simp
  have C: "Pack srt xOrder yOrder p = Some ((maxX b, maxY b), ?calls)
     \<and> sint (maxX b) = Max ((\<lambda>c. sint (x (recorded p c)) + sint (width (recorded p c))) ` set ?calls)
                - Min ((\<lambda>c. sint (x (recorded p c))) ` set ?calls)
     \<and> Min ((\<lambda>c. sint (x (recorded p c))) ` set ?calls) = 0
     \<and> sint (maxY b) = Max ((\<lambda>c. sint (y (recorded p c)) + sint (height (recorded p c))) ` set ?calls)
                - Min ((\<lambda>c. sint (y (recorded p c))) ` set ?calls)
     \<and> Min ((\<lambda>c. sint (y (recorded p c))) ` set ?calls) = 0
     \<and> computeBounds (map (recorded p) ?calls)
         = Some \<lparr>minX = 0, minY = 0, maxX = maxX b, maxY = maxY b\<rparr>"
    unfolding img [of "\<lambda>q. sint (x q) + sint (width q)"] img [of "\<lambda>q. sint (x q)"]
      img [of "\<lambda>q. sint (y q) + sint (height q)"] img [of "\<lambda>q. sint (y q)"]
      minx miny maxx maxy
    using P cb by simp
  show ?thesis
    by (rule exI [of _ "maxX b"], rule exI [of _ "maxY b"], rule exI [of _ ?calls]) (rule C)
qed

theorem Pack_returns_bounding_box_witness:
  "sortSlice_ok insertionSort \<and> rangeOrder_ok firstOrder \<and> rangeOrder_ok lastOrder
   \<and> fits smallInput \<and> Len smallInput \<noteq> 0
   \<and> (\<exists>w h calls. Pack insertionSort firstOrder lastOrder smallInput = Some ((w, h), calls)
     \<and> sint w = Max ((\<lambda>c. sint (x (recorded smallInput c)) + sint (width (recorded smallInput c))) ` set calls)
                - Min ((\<lambda>c. sint (x (recorded smallInput c))) ` set calls)
     \<and> Min ((\<lambda>c. sint (x (recorded smallInput c))) ` set calls) = 0
     \<and> sint h = Max ((\<lambda>c. sint (y (recorded smallInput c)) + sint (height (recorded smallInput c))) ` set calls)
                - Min ((\<lambda>c. sint (y (recorded smallInput c))) ` set calls)
     \<and> Min ((\<lambda>c. sint (y (recorded smallInput c))) ` set calls) = 0
     \<and> computeBounds (map (recorded smallInput) calls) = Some \<lparr>minX = 0, minY = 0, maxX = w, maxY = h\<rparr>)"
  using sortSlice_ok_insertionSort rangeOrder_ok_firstOrder rangeOrder_ok_lastOrder fits_smallInput
    Len_smallInput
    Pack_returns_bounding_box [OF sortSlice_ok_insertionSort rangeOrder_ok_firstOrder
      rangeOrder_ok_lastOrder fits_smallInput Len_smallInput]
  by blast

text \<open>
  C5 as stated fails where the product of a width and a height wraps around. The first
  rectangle of \<open>bigInput\<close> has width and height \<open>2 ^ 32\<close>: its area is \<open>2 ^ 64\<close>, which
  \<open>Area\<close> computes as 0. The unit square is sorted before it and placed first, at
  \<open>(0, 0)\<close>, although its area is the smaller one.
\<close>

theorem Pack_descending_area_counterexample:
  "sortSlice_ok insertionSort \<and> rangeOrder_ok firstOrder \<and> fits bigInput
   \<and> trueArea (bigInput ! 0) = 18446744073709551616 \<and> trueArea (bigInput ! 1) = 1
   \<and> Area (bigInput ! 0) = 0 \<and> Area (bigInput ! 1) = 1
   \<and> sortedPositions insertionSort bigInput = [1, 0]
   \<and> Pack insertionSort firstOrder firstOrder bigInput
       = Some ((4294967296, 4294967297), [(1, 0, 0), (0, 0, 1)])"
  by (intro conjI sortSlice_ok_insertionSort rangeOrder_ok_firstOrder fits_bigInput
      big_areas big_sorted big_Pack)

text \<open>
  C5, amended: when the product of width and height of every rectangle fits in a signed
  64-bit integer, \<open>Pack\<close> processes the rectangles in an order of descending area. The
  indices \<open>0..count-1\<close> are sorted so that no rectangle comes before one of a larger
  area; the placements are made, and the calls of \<open>Place\<close> are issued, in that order,
  each with the size of its rectangle; and the first rectangle of the order, whose area
  is the largest of the collection, is placed at the internal coordinates \<open>(0, 0)\<close>.
  This holds for every sort that meets the contract of \<open>sort.Slice\<close> and every
  iteration order of the two maps.
\<close>

theorem Pack_descending_true_area:
  assumes "sortSlice_ok srt" "Len p \<noteq> 0" "areaFits p"
  shows "\<exists>placements b.
      layout srt xOrder yOrder p = Some placements
    \<and> computeBounds placements = Some b
    \<and> Pack srt xOrder yOrder p
        = Some ((maxX b - minX b, maxY b - minY b),
                map (\<lambda>pl. (position pl, x pl - minX b, y pl - minY b)) placements)
    \<and> map position placements = sortedPositions srt p
    \<and> mset (sortedPositions srt p) = mset [0..<Len p]
    \<and> sorted_wrt (\<lambda>a b. trueArea (p ! b) \<le> trueArea (p ! a)) (sortedPositions srt p)
    \<and> (\<forall>q \<in> set placements.
          width q = Width (p ! position q) \<and> height q = Height (p ! position q))
    \<and> position (hd placements) = hd (sortedPositions srt p)
    \<and> x (hd placements) = 0 \<and> y (hd placements) = 0
    \<and> (\<forall>i < Len p. trueArea (p ! i) \<le> trueArea (p ! position (hd placements)))"
proof -
  from Pack_Some [OF assms(1,2), of xOrder yOrder] obtain ps where "\<exists>b. layout srt xOrder yOrder p = Some ps
      \<and> map position ps = sortedPositions srt p \<and> layoutInv p ps \<and> ps \<noteq> []
      \<and> computeBounds ps = Some b
      \<and> Pack srt xOrder yOrder p
          = Some ((maxX b - minX b, maxY b - minY b),
                  map (\<lambda>pl. (position pl, x pl - minX b, y pl - minY b)) ps)" ..
  then obtain b where H: "layout srt xOrder yOrder p = Some ps
      \<and> map position ps = sortedPositions srt p \<and> layoutInv p ps \<and> ps \<noteq> []
      \<and> computeBounds ps = Some b
      \<and> Pack srt xOrder yOrder p
          = Some ((maxX b - minX b, maxY b - minY b),
                  map (\<lambda>pl. (position pl, x pl - minX b, y pl - minY b)) ps)" ..
  then have l: "layout srt xOrder yOrder p = Some ps"
    and m: "map position ps = sortedPositions srt p" and inv: "layoutInv p ps" and pne: "ps \<noteq> []"
    and b: "computeBounds ps = Some b"
    and P: "Pack srt xOrder yOrder p
          = Some ((maxX b - minX b, maxY b - minY b),
                  map (\<lambda>pl. (position pl, x pl - minX b, y pl - minY b)) ps)"
    by simp_all
  have perm: "mset (sortedPositions srt p) = mset [0..<Len p]"
    by (rule sortedPositions_perm [OF assms(1)])
  have srt: "sorted_wrt (\<lambda>a b. trueArea (p ! b) \<le> trueArea (p ! a)) (sortedPositions srt p)"
    by (rule sortedPositions_sorted_trueArea [OF assms(1,3)])
  have ne: "sortedPositions srt p \<noteq> []" using m pne by auto
  have hdp: "position (hd ps) = hd (sortedPositions srt p)"
    using m [symmetric] pne by (cases ps) auto
  have top: "\<forall>i < Len p. trueArea (p ! i) \<le> trueArea (p ! position (hd ps))"
  proof (intro allI impI)
    fix i assume "i < Len p"
    then have "i \<in> set (sortedPositions srt p)"
      using sortedPositions_set [OF assms(1), of p] by (simp add: Len_def)
    then show "trueArea (p ! i) \<le> trueArea (p ! position (hd ps))"
      unfolding hdp using srt ne
      by (cases "sortedPositions srt p") auto
  qed
  have sz: "\<forall>q \<in> set ps. width q = Width (p ! position q) \<and> height q = Height (p ! position q)"
    and org: "x (hd ps) = 0" "y (hd ps) = 0"
    using inv pne by (simp_all add: layoutInv_def)
  from l b P m perm srt sz hdp org top
  have C: "layout srt xOrder yOrder p = Some ps
    \<and> computeBounds ps = Some b
    \<and> Pack srt xOrder yOrder p
        = Some ((maxX b - minX b, maxY b - minY b),
                map (\<lambda>pl. (position pl, x pl - minX b, y pl - minY b)) ps)
    \<and> map position ps = sortedPositions srt p
    \<and> mset (sortedPositions srt p) = mset [0..<Len p]
    \<and> sorted_wrt (\<lambda>a b. trueArea (p ! b) \<le> trueArea (p ! a)) (sortedPositions srt p)
    \<and> (\<forall>q \<in> set ps.
          width q = Width (p ! position q) \<and> height q = Height (p ! position q))
    \<and> position (hd ps) = hd (sortedPositions srt p)
    \<and> x (hd ps) = 0 \<and> y (hd ps) = 0
    \<and> (\<forall>i < Len p. trueArea (p ! i) \<le> trueArea (p ! position (hd ps)))"
    by simp
  show ?thesis
    by (rule exI [of _ ps], rule exI [of _ b]) (rule C)
qed

theorem Pack_descending_true_area_witness:
  "sortSlice_ok insertionSort \<and> Len smallInput \<noteq> 0 \<and> areaFits smallInput
   \<and> (\<exists>placements b.
      layout insertionSort firstOrder lastOrder smallInput = Some placements
    \<and> computeBounds placements = Some b
    \<and> Pack insertionSort firstOrder lastOrder smallInput
        = Some ((maxX b - minX b, maxY b - minY b),
                map (\<lambda>pl. (position pl, x pl - minX b, y pl - minY b)) placements)
    \<and> map position placements = sortedPositions insertionSort smallInput
    \<and> mset (sortedPositions insertionSort smallInput) = mset [0..<Len smallInput]
    \<and> sorted_wrt (\<lambda>a b. trueArea (smallInput ! b) \<le> trueArea (smallInput ! a))
          (sortedPositions insertionSort smallInput)
    \<and> (\<forall>q \<in> set placements.
          width q = Width (smallInput ! position q) \<and> height q = Height (smallInput ! position q))
    \<and> position (hd placements) = hd (sortedPositions insertionSort smallInput)
    \<and> x (hd placements) = 0 \<and> y (hd placements) = 0
    \<and> (\<forall>i < Len smallInput. trueArea (smallInput ! i) \<le> trueArea (smallInput ! position (hd placements))))"
  using sortSlice_ok_insertionSort Len_smallInput areaFits_smallInput
    Pack_descending_true_area [OF sortSlice_ok_insertionSort Len_smallInput areaFits_smallInput,
      of firstOrder lastOrder]
  by blast






text \<open>
  C9 as stated fails. Both iteration orders below list every key once, as Go's
  \<open>range\<close> over a map does, and \<open>sort.Slice\<close> is the same in the two runs; on two
  equal squares the two best candidates tie, and the runs return different dimensions
  and record different positions.
\<close>

theorem Pack_deterministic_counterexample:
  "sortSlice_ok insertionSort \<and> rangeOrder_ok firstOrder \<and> rangeOrder_ok lastOrder
   \<and> Pack insertionSort firstOrder firstOrder squaresInput = Some ((2, 4), [(0, 0, 0), (1, 0, 2)])
   \<and> Pack insertionSort lastOrder firstOrder squaresInput = Some ((4, 2), [(0, 0, 0), (1, 2, 0)])
   \<and> Pack insertionSort firstOrder firstOrder squaresInput
       \<noteq> Pack insertionSort lastOrder firstOrder squaresInput"
  using sortSlice_ok_insertionSort rangeOrder_ok_firstOrder rangeOrder_ok_lastOrder
  by (simp add: squares_first squares_last)

text \<open>
  C9, amended: when at every turn after the first of one run of \<open>Pack\<close> a single
  candidate has the best score among those that pass the intersection test, every run on
  the same collection with the same result of the sort, in whatever order the two maps are
  iterated, returns the same dimensions and records the same position for every index.
  Ties between candidates that are not the best do not matter.
\<close>

theorem Pack_deterministic_without_best_ties:
  assumes "rangeOrder_ok xOrder" "rangeOrder_ok yOrder" "rangeOrder_ok xOrder'" "rangeOrder_ok yOrder'"
    and "noTieForBest xOrder yOrder p [] (sortedPositions srt p)"
  shows "Pack srt xOrder' yOrder' p = Pack srt xOrder yOrder p"
proof -
  have "layout srt xOrder' yOrder' p = layout srt xOrder yOrder p"
    unfolding layout_def by (rule packLoop_order_free [OF assms])
  then show ?thesis by (simp add: Pack_def)
qed

theorem Pack_deterministic_without_best_ties_witness:
  "rangeOrder_ok firstOrder \<and> rangeOrder_ok lastOrder
   \<and> noTieForBest firstOrder firstOrder testInput [] (sortedPositions insertionSort testInput)
   \<and> Pack insertionSort lastOrder lastOrder testInput
       = Pack insertionSort firstOrder firstOrder testInput"
  using rangeOrder_ok_firstOrder rangeOrder_ok_lastOrder noTieForBest_testInput
    Pack_deterministic_without_best_ties [OF rangeOrder_ok_firstOrder rangeOrder_ok_firstOrder
      rangeOrder_ok_lastOrder rangeOrder_ok_lastOrder noTieForBest_testInput]
  by simp

end
